theory Spec2Isabelle
  imports Main "HOL-Library.Word"
begin

unbundle bit_operations_syntax

section \<open>BCM2708 cyclic DMA engine driver (drivers/dma/bcm2708-dmaengine.c)\<close>

text \<open>
  The BCM2708 is a 32-bit ARM11 system: \<open>unsigned\<close>, \<open>size_t\<close>, \<open>unsigned long\<close> and
  \<open>dma_addr_t\<close> are all 32 bits wide (the probe function sets \<open>DMA_BIT_MASK(32)\<close>), so every
  address, length and counter of the driver is a \<open>32 word\<close> and its arithmetic wraps around.
\<close>

type_synonym u32 = "32 word"

subsection \<open>Types of the DMA engine framework (linux/dmaengine.h)\<close>

text \<open>
  The enumerations are declared in \<open>linux/dmaengine.h\<close>, outside the driver's file. The
  driver names \<open>DMA_DEV_TO_MEM\<close>, \<open>DMA_MEM_TO_DEV\<close>, \<open>DMA_SLAVE_BUSWIDTH_4_BYTES\<close> and
  \<open>DMA_COMPLETE\<close>; the other constructors stand for the values it does not name.
\<close>

datatype dma_transfer_direction =
  DMA_MEM_TO_MEM | DMA_MEM_TO_DEV | DMA_DEV_TO_MEM | DMA_DEV_TO_DEV | DMA_TRANS_NONE

datatype dma_slave_buswidth =
  DMA_SLAVE_BUSWIDTH_UNDEFINED | DMA_SLAVE_BUSWIDTH_1_BYTE | DMA_SLAVE_BUSWIDTH_2_BYTES
  | DMA_SLAVE_BUSWIDTH_4_BYTES | DMA_SLAVE_BUSWIDTH_8_BYTES

datatype dma_status = DMA_COMPLETE | DMA_IN_PROGRESS | DMA_PAUSED | DMA_ERROR

text \<open>The fields of \<open>struct dma_slave_config\<close> that the driver reads.\<close>

record dma_slave_config =
  direction :: dma_transfer_direction
  src_addr :: u32
  dst_addr :: u32
  src_addr_width :: dma_slave_buswidth
  dst_addr_width :: dma_slave_buswidth
  slave_id :: u32

subsection \<open>Hardware definitions (mach/dma.h)\<close>

text \<open>
  The flag bits of a control block, the bits of the control-and-status register and the size
  of \<open>struct bcm2708_dma_cb\<close> are declared in \<open>mach/dma.h\<close>, outside the driver's file. They
  are a parameter of the model: every function that uses one takes the record below, and no
  theorem depends on their values.
\<close>

record mach_dma =
  BCM2708_DMA_INT_EN :: u32
  BCM2708_DMA_D_INC :: u32
  BCM2708_DMA_D_DREQ :: u32
  BCM2708_DMA_S_INC :: u32
  BCM2708_DMA_S_DREQ :: u32
  BCM2708_DMA_PER_MAP :: "u32 \<Rightarrow> u32"
  BCM2708_DMA_ACTIVE :: u32
  BCM2708_DMA_INT :: u32
  sizeof_bcm2708_dma_cb :: u32

text \<open>The registers of a channel that the driver reads and writes with \<open>readl\<close>/\<open>writel\<close>.\<close>

datatype reg = BCM2708_DMA_CS | BCM2708_DMA_SOURCE_AD | BCM2708_DMA_DEST_AD

text \<open>
  A control block (transfer step): flag word, source address, destination address, length in
  bytes and the physical address of the next step.
\<close>

record bcm2708_dma_cb =
  info :: u32
  src :: u32
  dst :: u32
  length_cb :: u32
  next_cb :: u32

definition zero_cb :: bcm2708_dma_cb where
  "zero_cb = \<lparr>info = 0, src = 0, dst = 0, length_cb = 0, next_cb = 0\<rparr>"

subsection \<open>Descriptor and channel\<close>

text \<open>
  \<open>struct bcm2708_desc\<close>. \<open>cookie\<close> is \<open>vd.tx.cookie\<close>; \<open>control_block_base\<close> is the array of
  control blocks in coherent memory, \<open>control_block_base_phys\<close> its physical address.
\<close>

record bcm2708_desc =
  cookie :: int
  dir :: dma_transfer_direction
  control_block_size :: u32
  control_block_base :: "bcm2708_dma_cb list"
  control_block_base_phys :: u32
  frames :: u32
  size_desc :: u32

text \<open>What \<open>kzalloc\<close> returns: a descriptor with every field zero.\<close>

definition zero_desc :: bcm2708_desc where
  "zero_desc = \<lparr>cookie = 0, dir = DMA_MEM_TO_MEM, control_block_size = 0,
     control_block_base = [], control_block_base_phys = 0, frames = 0, size_desc = 0\<rparr>"

text \<open>
  \<open>struct bcm2708_chan\<close>. \<open>vc\<close> is the virtual channel's queue of descriptors that have not
  been started, head first; \<open>chan_cookie\<close> is the last cookie the channel has given out
  (\<open>vc.chan.cookie\<close>); \<open>node\<close> tells whether the channel is on the device's list of
  schedulable channels; \<open>desc\<close> is the active descriptor.
\<close>

record bcm2708_chan =
  vc :: "bcm2708_desc list"
  chan_cookie :: int
  node :: bool
  cfg :: dma_slave_config
  cyclic :: bool
  desc :: "bcm2708_desc option"

subsection \<open>Effects\<close>

text \<open>
  Everything the driver does outside its own data is recorded, in order, as an event:
  allocator calls, register accesses, calls into the platform's DMA helpers and the
  framework, barriers and log messages.
\<close>

datatype event =
  Kzalloc bool
  | Kfree
  | DmaZallocCoherent u32 "u32 option"
  | DmaFreeCoherent u32 u32
  | Writel u32 reg
  | Readl reg
  | BcmDmaStart u32
  | BcmDmaAbort
  | VchanCyclicCallback u32
  | Dsb
  | CpuRelax
  | DevErr string

fun is_alloc :: "event \<Rightarrow> bool" where
  "is_alloc (Kzalloc _) = True"
| "is_alloc (DmaZallocCoherent _ _) = True"
| "is_alloc _ = False"

text \<open>
  The allocators are external. \<open>kzalloc_ok\<close> tells whether \<open>kzalloc\<close> finds memory for a
  descriptor; \<open>dma_zalloc_coherent\<close> maps the requested size to the physical address of the
  zeroed block, or to \<open>None\<close> when it returns \<open>NULL\<close>.
\<close>

record allocator =
  kzalloc_ok :: bool
  dma_zalloc_coherent :: "u32 \<Rightarrow> u32 option"

subsection \<open>Results of \<open>bcm2708_dma_prep_dma_cyclic\<close>\<close>

text \<open>
  The C function returns \<open>NULL\<close> for a bad direction, an unsupported width and a failed
  allocation; the first three errors name the place of the \<open>return NULL\<close>. The last three are
  the undefined behaviours the C code can run into: an unsigned division or remainder by zero
  and a store past the end of the allocated control-block array.
\<close>

datatype build_error =
  InvalidDirection | UnsupportedWidth | OutOfMemory
  | DivisionByZero | ModuloByZero | OutOfBounds

subsection \<open>\<open>bcm2708_dma_desc_free\<close>\<close>

definition bcm2708_dma_desc_free :: "bcm2708_desc \<Rightarrow> event list" where
  "bcm2708_dma_desc_free d =
     [DmaFreeCoherent (control_block_size d) (control_block_base_phys d), Kfree]"

subsection \<open>\<open>bcm2708_dma_prep_dma_cyclic\<close>\<close>

text \<open>Lines 270-282: device address, device width and request line of the direction.\<close>

definition grab_configuration ::
  "mach_dma \<Rightarrow> bcm2708_chan \<Rightarrow> dma_transfer_direction
     \<Rightarrow> (u32 \<times> dma_slave_buswidth \<times> u32) option" where
  "grab_configuration k c direction' =
     (if direction' = DMA_DEV_TO_MEM then
        Some (src_addr (cfg c), src_addr_width (cfg c), BCM2708_DMA_S_DREQ k)
      else if direction' = DMA_MEM_TO_DEV then
        Some (dst_addr (cfg c), dst_addr_width (cfg c), BCM2708_DMA_D_DREQ k)
      else None)"

text \<open>Lines 285-291: the bus width gives the element size; only 4 bytes is accepted.\<close>

definition BCM2708_DMA_DATA_TYPE_S32 :: u32 where
  "BCM2708_DMA_DATA_TYPE_S32 = 4"

fun element_size :: "dma_slave_buswidth \<Rightarrow> u32 option" where
  "element_size DMA_SLAVE_BUSWIDTH_4_BYTES = Some BCM2708_DMA_DATA_TYPE_S32"
| "element_size _ = None"

text \<open>
  Lines 317-354, the body of the loop for one frame: the control block written at index
  \<open>frame\<close>. The code assigns every field of the block that the model has, so the block
  is built from the zeroed one. The remainder \<open>(frame + 1) % d->frames\<close> is undefined for
  \<open>d->frames = 0\<close>.
\<close>

definition setup_control_block ::
  "mach_dma \<Rightarrow> bcm2708_chan \<Rightarrow> u32 \<Rightarrow> u32 \<Rightarrow> u32 \<Rightarrow> u32 \<Rightarrow> bcm2708_desc \<Rightarrow> u32
     \<Rightarrow> build_error + bcm2708_dma_cb" where
  "setup_control_block k c dev_addr sync_type buf_addr period_len d frame =
     (let control_block =
            (if dir d = DMA_DEV_TO_MEM then
               zero_cb\<lparr>info := BCM2708_DMA_D_INC k, src := dev_addr,
                       dst := buf_addr + frame * period_len\<rparr>
             else
               zero_cb\<lparr>info := BCM2708_DMA_S_INC k, src := buf_addr + frame * period_len,
                       dst := dev_addr\<rparr>);
          control_block = control_block\<lparr>info := info control_block OR BCM2708_DMA_INT_EN k\<rparr>;
          control_block =
            (if sync_type \<noteq> 0 then control_block\<lparr>info := info control_block OR sync_type\<rparr>
             else control_block);
          control_block =
            (if slave_id (cfg c) \<noteq> 0 then
               control_block\<lparr>info := info control_block
                                        OR BCM2708_DMA_PER_MAP k (slave_id (cfg c))\<rparr>
             else control_block);
          control_block = control_block\<lparr>length_cb := period_len\<rparr>
      in if frames d = 0 then Inl ModuloByZero
         else Inr (control_block\<lparr>next_cb := control_block_base_phys d
                     + sizeof_bcm2708_dma_cb k * ((frame + 1) mod frames d)\<rparr>))"

text \<open>
  Lines 316-355, the loop \<open>for (frame = 0; frame < d->frames; frame++)\<close>. The array holds
  \<open>length (control_block_base d)\<close> control blocks; a store at an index past its end is out of
  bounds. \<open>d->size\<close> grows by the block's length in every round.
\<close>

function build_control_blocks ::
  "mach_dma \<Rightarrow> bcm2708_chan \<Rightarrow> u32 \<Rightarrow> u32 \<Rightarrow> u32 \<Rightarrow> u32 \<Rightarrow> bcm2708_desc \<Rightarrow> u32
     \<Rightarrow> build_error + bcm2708_desc" where
  "build_control_blocks k c dev_addr sync_type buf_addr period_len d frame =
     (if frame < frames d then
        (if \<not> unat frame < length (control_block_base d) then Inl OutOfBounds
         else
           (case setup_control_block k c dev_addr sync_type buf_addr period_len d frame of
              Inl e \<Rightarrow> Inl e
            | Inr control_block \<Rightarrow>
                build_control_blocks k c dev_addr sync_type buf_addr period_len
                  (d\<lparr>control_block_base := (control_block_base d)[unat frame := control_block],
                     size_desc := size_desc d + length_cb control_block\<rparr>)
                  (frame + 1)))
      else Inr d)"
  by pat_completeness auto

termination build_control_blocks
proof (relation "measure (\<lambda>(k, c, dev_addr, sync_type, buf_addr, period_len, d, frame).
                   unat (frames d) - unat frame)")
  fix d :: bcm2708_desc and frame :: u32 and cbs :: "bcm2708_dma_cb list" and sz :: u32
  fix k :: mach_dma and c :: bcm2708_chan and dev_addr sync_type buf_addr period_len :: u32
  assume "frame < frames d"
  then have "unat (frame + 1) = Suc (unat frame)" and "unat frame < unat (frames d)"
    by unat_arith+
  then show "((k, c, dev_addr, sync_type, buf_addr, period_len,
               d\<lparr>control_block_base := cbs, size_desc := sz\<rparr>, frame + 1),
              (k, c, dev_addr, sync_type, buf_addr, period_len, d, frame))
             \<in> measure (\<lambda>(k, c, dev_addr, sync_type, buf_addr, period_len, d, frame).
                   unat (frames d) - unat frame)"
    by simp
qed simp

declare build_control_blocks.simps [simp del]

text \<open>
  Modelled from the spec: \<open>vchan_tx_prep\<close> of \<open>virt-dma.h\<close>, which is not part of the driver's
  file. The builder's output is "an owned Descriptor referencing the chain's first step":
  the descriptor is handed to the client as it was built.
\<close>

definition vchan_tx_prep :: "bcm2708_desc \<Rightarrow> bcm2708_desc" where
  "vchan_tx_prep d = d"

text \<open>
  The whole function. The second component of the result lists the allocator calls and log
  messages in the order they happen. The arguments \<open>flags\<close> and \<open>context\<close> are left out:
  \<open>context\<close> is unused and \<open>flags\<close> is only passed on to \<open>vchan_tx_prep\<close>. The division
  \<open>buf_len / period_len\<close> is undefined for \<open>period_len = 0\<close>. The zeroed block of
  \<open>control_block_size\<close> bytes holds \<open>control_block_size / sizeof(struct bcm2708_dma_cb)\<close>
  control blocks.
\<close>

definition bcm2708_dma_prep_dma_cyclic ::
  "mach_dma \<Rightarrow> allocator \<Rightarrow> bcm2708_chan \<Rightarrow> u32 \<Rightarrow> u32 \<Rightarrow> u32 \<Rightarrow> dma_transfer_direction
     \<Rightarrow> (build_error + bcm2708_desc) \<times> event list" where
  "bcm2708_dma_prep_dma_cyclic k a c buf_addr buf_len period_len direction' =
     (case grab_configuration k c direction' of
        None \<Rightarrow> (Inl InvalidDirection, [DevErr ''bcm2708_dma_prep_dma_cyclic: bad direction?''])
      | Some (dev_addr, dev_width, sync_type) \<Rightarrow>
          (case element_size dev_width of
             None \<Rightarrow> (Inl UnsupportedWidth, [])
           | Some es \<Rightarrow>
               if \<not> kzalloc_ok a then (Inl OutOfMemory, [Kzalloc False])
               else if period_len = 0 then (Inl DivisionByZero, [Kzalloc True])
               else
                 (let d = zero_desc\<lparr>dir := direction', frames := buf_len div period_len\<rparr>;
                      d = d\<lparr>control_block_size := frames d * sizeof_bcm2708_dma_cb k\<rparr>
                  in case dma_zalloc_coherent a (control_block_size d) of
                       None \<Rightarrow>
                         (Inl OutOfMemory,
                          [Kzalloc True, DmaZallocCoherent (control_block_size d) None, Kfree])
                     | Some phys \<Rightarrow>
                         (let d = d\<lparr>control_block_base :=
                                       replicate (unat (control_block_size d)
                                                  div unat (sizeof_bcm2708_dma_cb k)) zero_cb,
                                     control_block_base_phys := phys\<rparr>;
                              ev = [Kzalloc True,
                                    DmaZallocCoherent (control_block_size d) (Some phys)]
                          in case build_control_blocks k c dev_addr sync_type buf_addr
                                    period_len d 0 of
                               Inl e \<Rightarrow> (Inl e, ev)
                             | Inr d' \<Rightarrow> (Inr (vchan_tx_prep d'), ev)))))"

subsection \<open>The transfer queue: \<open>bcm2708_dma_start_desc\<close> and \<open>bcm2708_dma_issue_pending\<close>\<close>

text \<open>
  Modelled from the spec: \<open>vchan_next_desc\<close> and \<open>vchan_issue_pending\<close> of \<open>virt-dma.h\<close>, which
  is not part of the driver's file. The channel has "an ordered queue of not-yet-started
  descriptors"; \<open>issue_pending\<close> acts when "the queue is non-empty" and takes "the head
  descriptor".
\<close>

definition vchan_next_desc :: "bcm2708_desc list \<Rightarrow> bcm2708_desc option" where
  "vchan_next_desc q = (case q of [] \<Rightarrow> None | vd # _ \<Rightarrow> Some vd)"

definition vchan_issue_pending :: "bcm2708_desc list \<Rightarrow> bool" where
  "vchan_issue_pending q = (q \<noteq> [])"

text \<open>
  Modelled from the spec: \<open>bcm_dma_start\<close> of the platform's DMA helpers, which is not part
  of the driver's file: "\<open>start(physical_address)\<close> writes the chain's head address then
  asserts the run bit". It is one event that carries the address.
\<close>

definition bcm_dma_start :: "u32 \<Rightarrow> event list" where
  [simp]: "bcm_dma_start control_block = [BcmDmaStart control_block]"

text \<open>
  \<open>bcm2708_dma_start_desc\<close> (lines 114-129). \<open>list_del(&vd->node)\<close> unlinks the descriptor
  that \<open>vchan_next_desc\<close> returned, the head of the queue.
\<close>

definition bcm2708_dma_start_desc :: "bcm2708_chan \<Rightarrow> bcm2708_chan \<times> event list" where
  "bcm2708_dma_start_desc c =
     (case vchan_next_desc (vc c) of
        None \<Rightarrow> (c\<lparr>desc := None\<rparr>, [])
      | Some vd \<Rightarrow>
          (c\<lparr>vc := tl (vc c), desc := Some vd\<rparr>, bcm_dma_start (control_block_base_phys vd)))"

text \<open>
  \<open>bcm2708_dma_issue_pending\<close> (lines 244-256). The flag \<open>cyclic\<close> is set before the queue
  is looked at.
\<close>

definition bcm2708_dma_issue_pending :: "bcm2708_chan \<Rightarrow> bcm2708_chan \<times> event list" where
  "bcm2708_dma_issue_pending c =
     (let c = c\<lparr>cyclic := True\<rparr>
      in if vchan_issue_pending (vc c) \<and> desc c = None then bcm2708_dma_start_desc c
         else (c, []))"

subsection \<open>The interrupt handler: \<open>bcm2708_dma_callback\<close>\<close>

text \<open>
  Modelled from the spec: \<open>vchan_cyclic_callback\<close> of \<open>virt-dma.h\<close>, which is not part of the
  driver's file, is "the registered period-boundary notification"; it is one event that
  carries the physical address of the descriptor's chain.
\<close>

definition vchan_cyclic_callback :: "bcm2708_desc \<Rightarrow> event list" where
  [simp]: "vchan_cyclic_callback d = [VchanCyclicCallback (control_block_base_phys d)]"

text \<open>
  \<open>bcm2708_dma_callback\<close> (lines 131-156). The handler returns \<open>IRQ_HANDLED\<close> in every case;
  the result is the channel, which it does not change, and the events: the acknowledge, the
  notification if there is an active descriptor, the barrier and the write of the run bit.
\<close>

definition bcm2708_dma_callback :: "mach_dma \<Rightarrow> bcm2708_chan \<Rightarrow> bcm2708_chan \<times> event list" where
  "bcm2708_dma_callback k c =
     (c, [Writel (BCM2708_DMA_INT k) BCM2708_DMA_CS]
         @ (case desc c of
              Some d \<Rightarrow> vchan_cyclic_callback d
            | None \<Rightarrow> [])
         @ [Dsb, Writel (BCM2708_DMA_ACTIVE k) BCM2708_DMA_CS])"

subsection \<open>Progress: \<open>bcm2708_dma_desc_size_pos\<close> and \<open>bcm2708_dma_tx_status\<close>\<close>

definition bcm2708_dma_desc_size :: "bcm2708_desc \<Rightarrow> u32" where
  "bcm2708_dma_desc_size d = size_desc d"

text \<open>
  Lines 186-201, the loop \<open>for (size = i = 0; i < d->frames; i++)\<close>. A read of
  \<open>control_block_base[i]\<close> past the end of the array is undefined: the result is \<open>None\<close>.
\<close>

function desc_size_pos_loop :: "bcm2708_desc \<Rightarrow> u32 \<Rightarrow> u32 \<Rightarrow> u32 \<Rightarrow> u32 option" where
  "desc_size_pos_loop d addr i size' =
     (if i < frames d then
        (if \<not> unat i < length (control_block_base d) then None
         else
           (let control_block = control_block_base d ! unat i;
                this_size = length_cb control_block;
                dma = (if dir d = DMA_DEV_TO_MEM then dst control_block
                       else src control_block)
            in desc_size_pos_loop d addr (i + 1)
                 (if size' \<noteq> 0 then size' + this_size
                  else if addr \<ge> dma \<and> addr < dma + this_size
                       then size' + (dma + this_size - addr)
                  else size')))
      else Some size')"
  by pat_completeness auto

termination desc_size_pos_loop
proof (relation "measure (\<lambda>(d, addr, i, size'). unat (frames d) - unat i)")
  fix d :: bcm2708_desc and i :: u32 and addr sz sz' :: u32
  assume "i < frames d"
  then have "unat (i + 1) = Suc (unat i)" and "unat i < unat (frames d)"
    by unat_arith+
  then show "((d, addr, i + 1, sz'), (d, addr, i, sz))
             \<in> measure (\<lambda>(d, addr, i, size'). unat (frames d) - unat i)"
    by simp
qed simp

declare desc_size_pos_loop.simps [simp del]

definition bcm2708_dma_desc_size_pos :: "bcm2708_desc \<Rightarrow> u32 \<Rightarrow> u32 option" where
  "bcm2708_dma_desc_size_pos d addr = desc_size_pos_loop d addr 0 0"

text \<open>
  Modelled from the spec: \<open>vchan_find_desc\<close> of \<open>virt-dma.h\<close>, which is not part of the
  driver's file, finds the "still-queued descriptor" the cookie belongs to.
\<close>

definition vchan_find_desc :: "bcm2708_desc list \<Rightarrow> int \<Rightarrow> bcm2708_desc option" where
  "vchan_find_desc q cookie' = find (\<lambda>vd. cookie vd = cookie') q"

text \<open>
  \<open>bcm2708_dma_tx_status\<close>. \<open>ret\<close> is what the framework's \<open>dma_cookie_status\<close> returns,
  \<open>txstate\<close> tells whether the caller passed a state to fill in, \<open>readl\<close> gives the value
  of a register at the moment it is read. The result is the status, the residue stored in
  the state (if one is stored) and the register reads; it is \<open>None\<close> where the walk over the
  control blocks is undefined.
\<close>

definition bcm2708_dma_tx_status ::
  "(reg \<Rightarrow> u32) \<Rightarrow> dma_status \<Rightarrow> bool \<Rightarrow> bcm2708_chan \<Rightarrow> int
     \<Rightarrow> (dma_status \<times> u32 option \<times> event list) option" where
  "bcm2708_dma_tx_status readl ret txstate c cookie' =
     (if ret = DMA_COMPLETE \<or> \<not> txstate then Some (ret, None, [])
      else
        (case vchan_find_desc (vc c) cookie' of
           Some vd \<Rightarrow> Some (ret, Some (bcm2708_dma_desc_size vd), [])
         | None \<Rightarrow>
             (case desc c of
                None \<Rightarrow> Some (ret, Some 0, [])
              | Some d \<Rightarrow>
                  if cookie d = cookie' then
                    (let (pos, ev) =
                           (if dir d = DMA_MEM_TO_DEV then
                              (readl BCM2708_DMA_SOURCE_AD, [Readl BCM2708_DMA_SOURCE_AD])
                            else if dir d = DMA_DEV_TO_MEM then
                              (readl BCM2708_DMA_DEST_AD, [Readl BCM2708_DMA_DEST_AD])
                            else (0, []))
                     in map_option (\<lambda>residue. (ret, Some residue, ev))
                          (bcm2708_dma_desc_size_pos d pos))
                  else Some (ret, Some 0, []))))"

subsection \<open>Configuration and termination\<close>

text \<open>
  Modelled from the spec: \<open>is_slave_direction\<close> of \<open>linux/dmaengine.h\<close>, which is not part
  of the driver's file: "a valid memory-device direction".
\<close>

definition is_slave_direction :: "dma_transfer_direction \<Rightarrow> bool" where
  "is_slave_direction direction' =
     (direction' = DMA_MEM_TO_DEV \<or> direction' = DMA_DEV_TO_MEM)"

text \<open>\<open>bcm2708_dma_slave_config\<close> (lines 360-374); it returns \<open>-EINVAL\<close> or 0.\<close>

definition EINVAL :: int where
  "EINVAL = 22"

definition bcm2708_dma_slave_config ::
  "bcm2708_chan \<Rightarrow> dma_slave_config \<Rightarrow> int \<times> bcm2708_chan" where
  "bcm2708_dma_slave_config c cfg' =
     (if (direction cfg' = DMA_DEV_TO_MEM
            \<and> src_addr_width cfg' \<noteq> DMA_SLAVE_BUSWIDTH_4_BYTES)
         \<or> (direction cfg' = DMA_MEM_TO_DEV
            \<and> dst_addr_width cfg' \<noteq> DMA_SLAVE_BUSWIDTH_4_BYTES)
         \<or> \<not> is_slave_direction (direction cfg')
      then (- EINVAL, c)
      else (0, c\<lparr>cfg := cfg'\<rparr>))"

text \<open>
  Lines 400-407, the loop that waits for the channel to stop. \<open>cs n\<close> is the value the
  \<open>n\<close>-th read of the control-and-status register returns; \<open>ev\<close> collects the events.
\<close>

function wait_for_stopping ::
  "mach_dma \<Rightarrow> (nat \<Rightarrow> u32) \<Rightarrow> int \<Rightarrow> nat \<Rightarrow> event list \<Rightarrow> int \<times> event list" where
  "wait_for_stopping k cs timeout n ev =
     (if timeout > 0 then
        (if cs n AND BCM2708_DMA_ACTIVE k = 0 then
           (timeout - 1, ev @ [Readl BCM2708_DMA_CS])
         else wait_for_stopping k cs (timeout - 1) (n + 1)
                (ev @ [Readl BCM2708_DMA_CS, CpuRelax]))
      else (timeout, ev))"
  by pat_completeness auto

termination wait_for_stopping
  by (relation "measure (\<lambda>(k, cs, timeout, n, ev). nat timeout)") auto

declare wait_for_stopping.simps [simp del]

text \<open>
  Modelled from the spec: \<open>vchan_get_all_descriptors\<close> and \<open>vchan_dma_desc_free_list\<close> of the
  virtual-channel layer, which are not part of the driver's file: "drain and free all queued
  (never-started) descriptors". The first empties the queue into a list, the second frees
  every descriptor of that list with the channel's \<open>desc_free\<close>, which line 447 sets to
  \<open>bcm2708_dma_desc_free\<close>.
\<close>

definition vchan_get_all_descriptors ::
  "bcm2708_chan \<Rightarrow> bcm2708_chan \<times> bcm2708_desc list" where
  "vchan_get_all_descriptors c = (c\<lparr>vc := []\<rparr>, vc c)"

definition vchan_dma_desc_free_list :: "bcm2708_desc list \<Rightarrow> event list" where
  "vchan_dma_desc_free_list head = concat (map bcm2708_dma_desc_free head)"

text \<open>
  Modelled from the spec: \<open>bcm_dma_abort\<close> of the platform's DMA helpers, which is not part
  of the driver's file, "issues the hardware stop command": it is one event.
\<close>

definition bcm_dma_abort :: "event list" where
  [simp]: "bcm_dma_abort = [BcmDmaAbort]"

text \<open>
  \<open>bcm2708_dma_terminate_all\<close> (lines 376-418). \<open>list_del_init(&c->node)\<close> takes the channel
  off the device's list. The active descriptor is cleared before the abort. The result is
  the return value, the channel and the events.
\<close>

definition bcm2708_dma_terminate_all ::
  "mach_dma \<Rightarrow> (nat \<Rightarrow> u32) \<Rightarrow> bcm2708_chan \<Rightarrow> int \<times> bcm2708_chan \<times> event list" where
  "bcm2708_dma_terminate_all k cs c =
     (let c = c\<lparr>node := False\<rparr>;
          (c, ev) =
            (if desc c \<noteq> None then
               (let c = c\<lparr>desc := None\<rparr>;
                    (timeout, ev) = wait_for_stopping k cs 10000 0 bcm_dma_abort
                in (c, if timeout \<le> 0
                       then ev @ [DevErr ''DMA transfer could not be terminated'']
                       else ev))
             else (c, []));
          (c, head) = vchan_get_all_descriptors c
      in (0, c, ev @ vchan_dma_desc_free_list head))"

subsection \<open>Channel set-up, submission and the reachable channel states\<close>

text \<open>
  \<open>bcm2708_dma_chan_init\<close> (lines 443-455): the channel comes zeroed from \<open>devm_kzalloc\<close>,
  with an empty queue and an empty list node.
\<close>

definition bcm2708_dma_chan_init :: bcm2708_chan where
  "bcm2708_dma_chan_init =
     \<lparr>vc = [], chan_cookie = 0, node = False,
      cfg = \<lparr>direction = DMA_MEM_TO_MEM, src_addr = 0, dst_addr = 0,
             src_addr_width = DMA_SLAVE_BUSWIDTH_UNDEFINED,
             dst_addr_width = DMA_SLAVE_BUSWIDTH_UNDEFINED, slave_id = 0\<rparr>,
      cyclic = False, desc = None\<rparr>"

text \<open>
  Modelled from the spec: \<open>vchan_tx_submit\<close> of the virtual-channel layer, which is not part
  of the driver's file: "\<open>submit(descriptor) -> cookie\<close>: assigns a monotonically increasing
  cookie, appends to queue tail. No hardware effect."
\<close>

definition vchan_tx_submit :: "bcm2708_chan \<Rightarrow> bcm2708_desc \<Rightarrow> int \<times> bcm2708_chan" where
  "vchan_tx_submit c d =
     (let cookie' = chan_cookie c + 1
      in (cookie', c\<lparr>chan_cookie := cookie', vc := vc c @ [d\<lparr>cookie := cookie'\<rparr>]\<rparr>))"

text \<open>
  The states a channel can be in: the initial one, and every state an entry point of the
  driver leads to from a reachable one.
\<close>

inductive reachable :: "bcm2708_chan \<Rightarrow> bool" where
  reachable_init: "reachable bcm2708_dma_chan_init"
| reachable_slave_config:
    "reachable c \<Longrightarrow> bcm2708_dma_slave_config c cfg' = (r, c') \<Longrightarrow> reachable c'"
| reachable_submit:
    "reachable c \<Longrightarrow>
     bcm2708_dma_prep_dma_cyclic k a c buf_addr buf_len period_len direction' = (Inr d, ev) \<Longrightarrow>
     vchan_tx_submit c d = (cookie', c') \<Longrightarrow> reachable c'"
| reachable_issue_pending:
    "reachable c \<Longrightarrow> bcm2708_dma_issue_pending c = (c', ev) \<Longrightarrow> reachable c'"
| reachable_callback:
    "reachable c \<Longrightarrow> bcm2708_dma_callback k c = (c', ev) \<Longrightarrow> reachable c'"
| reachable_terminate_all:
    "reachable c \<Longrightarrow> bcm2708_dma_terminate_all k cs c = (r, c', ev) \<Longrightarrow> reachable c'"

subsection \<open>Auxiliary notions for stating the properties\<close>

text \<open>
  The flag word that lines 322-341 leave in \<open>control_block->info\<close>, for the increment flag
  \<open>inc\<close> of the direction.
\<close>

definition cb_info :: "mach_dma \<Rightarrow> bcm2708_chan \<Rightarrow> u32 \<Rightarrow> u32 \<Rightarrow> u32" where
  "cb_info k c inc sync_type =
     (let i = inc OR BCM2708_DMA_INT_EN k;
          i = (if sync_type \<noteq> 0 then i OR sync_type else i)
      in if slave_id (cfg c) \<noteq> 0 then i OR BCM2708_DMA_PER_MAP k (slave_id (cfg c)) else i)"

text \<open>The descriptor before the loop (lines 294-305), with the block at \<open>phys\<close>.\<close>

definition alloc_desc ::
  "mach_dma \<Rightarrow> u32 \<Rightarrow> u32 \<Rightarrow> dma_transfer_direction \<Rightarrow> u32 \<Rightarrow> bcm2708_desc" where
  "alloc_desc k buf_len period_len direction' phys =
     zero_desc\<lparr>dir := direction', frames := buf_len div period_len,
               control_block_size := buf_len div period_len * sizeof_bcm2708_dma_cb k,
               control_block_base :=
                 replicate (unat (buf_len div period_len * sizeof_bcm2708_dma_cb k)
                            div unat (sizeof_bcm2708_dma_cb k)) zero_cb,
               control_block_base_phys := phys\<rparr>"

text \<open>The endpoint address and the request line of a direction (lines 271-278).\<close>

definition dev_addr_of :: "bcm2708_chan \<Rightarrow> dma_transfer_direction \<Rightarrow> u32" where
  "dev_addr_of c direction' =
     (if direction' = DMA_DEV_TO_MEM then src_addr (cfg c) else dst_addr (cfg c))"

definition sync_type_of :: "mach_dma \<Rightarrow> dma_transfer_direction \<Rightarrow> u32" where
  "sync_type_of k direction' =
     (if direction' = DMA_DEV_TO_MEM then BCM2708_DMA_S_DREQ k else BCM2708_DMA_D_DREQ k)"

text \<open>
  The physical address of \<open>control_block_base[i]\<close>: the base address plus \<open>i\<close> times the size
  of a control block.
\<close>

definition control_block_phys :: "mach_dma \<Rightarrow> bcm2708_desc \<Rightarrow> nat \<Rightarrow> u32" where
  "control_block_phys k d i = control_block_base_phys d + sizeof_bcm2708_dma_cb k * of_nat i"

text \<open>
  The number of allocations of a trace that are still held at its end: every successful
  \<open>kzalloc\<close> and \<open>dma_zalloc_coherent\<close> counts one up, every \<open>kfree\<close> and
  \<open>dma_free_coherent\<close> one down.
\<close>

fun outstanding :: "event list \<Rightarrow> int" where
  "outstanding [] = 0"
| "outstanding (Kzalloc ok # evs) = (if ok then 1 else 0) + outstanding evs"
| "outstanding (DmaZallocCoherent sz (Some phys) # evs) = 1 + outstanding evs"
| "outstanding (Kfree # evs) = outstanding evs - 1"
| "outstanding (DmaFreeCoherent sz phys # evs) = outstanding evs - 1"
| "outstanding (_ # evs) = outstanding evs"

text \<open>
  For the residue, from the code: the address of a control block that
  \<open>bcm2708_dma_desc_size_pos\<close> compares the position with (lines 192-195), the test of line
  199, \<open>addr >= dma && addr < dma + this_size\<close>, and the value of line 200,
  \<open>dma + this_size - addr\<close>, all in 32-bit arithmetic: the sum \<open>dma + this_size\<close> wraps
  around.
\<close>

definition step_addr :: "bcm2708_desc \<Rightarrow> bcm2708_dma_cb \<Rightarrow> u32" where
  "step_addr d cb = (if dir d = DMA_DEV_TO_MEM then dst cb else src cb)"

definition size_pos_test :: "bcm2708_desc \<Rightarrow> u32 \<Rightarrow> bcm2708_dma_cb \<Rightarrow> bool" where
  "size_pos_test d addr cb \<longleftrightarrow>
     addr \<ge> step_addr d cb \<and> addr < step_addr d cb + length_cb cb"

definition step_remainder :: "bcm2708_desc \<Rightarrow> u32 \<Rightarrow> bcm2708_dma_cb \<Rightarrow> u32" where
  "step_remainder d addr cb = step_addr d cb + length_cb cb - addr"

text \<open>
  For the residue, from the claim: a position falls within the range of a step if, as
  numbers, it is at least the step's address and less than the step's address plus its
  length. The sum is a sum of numbers: it can reach or exceed \<open>2^32\<close>.
\<close>

definition in_step_range :: "bcm2708_desc \<Rightarrow> u32 \<Rightarrow> bcm2708_dma_cb \<Rightarrow> bool" where
  "in_step_range d addr cb \<longleftrightarrow>
     unat (step_addr d cb) \<le> unat addr
     \<and> unat addr < unat (step_addr d cb) + unat (length_cb cb)"

text \<open>
  The body of the loop of \<open>bcm2708_dma_desc_size_pos\<close>, folded over a list of control blocks;
  \<open>desc_size_pos_loop_walk\<close> below shows that the loop computes it.
\<close>

fun size_pos_walk :: "bcm2708_desc \<Rightarrow> u32 \<Rightarrow> bcm2708_dma_cb list \<Rightarrow> u32 \<Rightarrow> u32" where
  "size_pos_walk d addr [] size' = size'"
| "size_pos_walk d addr (cb # cbs) size' =
     size_pos_walk d addr cbs
       (if size' \<noteq> 0 then size' + length_cb cb
        else if size_pos_test d addr cb then size' + step_remainder d addr cb
        else size')"

text \<open>The events that release memory, and the polls of the control-and-status register.\<close>

fun is_free :: "event \<Rightarrow> bool" where
  "is_free Kfree = True"
| "is_free (DmaFreeCoherent _ _) = True"
| "is_free _ = False"

fun is_poll :: "event \<Rightarrow> bool" where
  "is_poll (Readl r) = (r = BCM2708_DMA_CS)"
| "is_poll _ = False"

subsection \<open>Sample data\<close>

text \<open>
  A concrete instance for applying the theorems: flag values, an allocator that always
  succeeds, and a channel configured for 4-byte transfers from and to a device register.
\<close>

definition sample_mach_dma :: mach_dma where
  "sample_mach_dma =
     \<lparr>BCM2708_DMA_INT_EN = 1, BCM2708_DMA_D_INC = 0x10, BCM2708_DMA_D_DREQ = 0x40,
      BCM2708_DMA_S_INC = 0x100, BCM2708_DMA_S_DREQ = 0x400,
      BCM2708_DMA_PER_MAP = (\<lambda>x. push_bit 16 x),
      BCM2708_DMA_ACTIVE = 1, BCM2708_DMA_INT = 4, sizeof_bcm2708_dma_cb = 32\<rparr>"

definition sample_allocator :: allocator where
  "sample_allocator = \<lparr>kzalloc_ok = True, dma_zalloc_coherent = (\<lambda>sz. Some 0x5000)\<rparr>"

definition sample_chan :: bcm2708_chan where
  "sample_chan =
     bcm2708_dma_chan_init
       \<lparr>cfg := \<lparr>direction = DMA_DEV_TO_MEM, src_addr = 0x7E203004, dst_addr = 0x7E203004,
                src_addr_width = DMA_SLAVE_BUSWIDTH_4_BYTES,
                dst_addr_width = DMA_SLAVE_BUSWIDTH_4_BYTES, slave_id = 3\<rparr>\<rparr>"

text \<open>The descriptor for a buffer of 4096 bytes at \<open>0x1000\<close> in periods of 1024 bytes.\<close>

definition sample_desc :: bcm2708_desc where
  "sample_desc =
     \<lparr>cookie = 0, dir = DMA_DEV_TO_MEM, control_block_size = 128,
      control_block_base =
        [\<lparr>info = 0x30411, src = 0x7E203004, dst = 0x1000, length_cb = 1024, next_cb = 0x5020\<rparr>,
         \<lparr>info = 0x30411, src = 0x7E203004, dst = 0x1400, length_cb = 1024, next_cb = 0x5040\<rparr>,
         \<lparr>info = 0x30411, src = 0x7E203004, dst = 0x1800, length_cb = 1024, next_cb = 0x5060\<rparr>,
         \<lparr>info = 0x30411, src = 0x7E203004, dst = 0x1C00, length_cb = 1024, next_cb = 0x5000\<rparr>],
      control_block_base_phys = 0x5000, frames = 4, size_desc = 4096\<rparr>"

text \<open>The sample channel with a 2-byte endpoint, and an allocator without coherent memory.\<close>

definition narrow_chan :: bcm2708_chan where
  "narrow_chan =
     sample_chan\<lparr>cfg := (cfg sample_chan)\<lparr>src_addr_width := DMA_SLAVE_BUSWIDTH_2_BYTES\<rparr>\<rparr>"

definition failing_allocator :: allocator where
  "failing_allocator = \<lparr>kzalloc_ok = True, dma_zalloc_coherent = (\<lambda>sz. None)\<rparr>"

text \<open>
  The descriptor for a buffer shorter than one period, and the ones for a buffer of 512
  bytes in periods of 256 bytes at \<open>0xFFFFFE00\<close>, where it ends at the top of the address
  space, and at \<open>0xFFFFFF00\<close>, where it wraps around.
\<close>

definition empty_desc :: bcm2708_desc where
  "empty_desc =
     \<lparr>cookie = 0, dir = DMA_DEV_TO_MEM, control_block_size = 0, control_block_base = [],
      control_block_base_phys = 0x5000, frames = 0, size_desc = 0\<rparr>"

definition top_desc :: bcm2708_desc where
  "top_desc =
     \<lparr>cookie = 0, dir = DMA_DEV_TO_MEM, control_block_size = 64,
      control_block_base =
        [\<lparr>info = 0x30411, src = 0x7E203004, dst = 0xFFFFFE00, length_cb = 256, next_cb = 0x5020\<rparr>,
         \<lparr>info = 0x30411, src = 0x7E203004, dst = 0xFFFFFF00, length_cb = 256, next_cb = 0x5000\<rparr>],
      control_block_base_phys = 0x5000, frames = 2, size_desc = 512\<rparr>"

definition wrapped_desc :: bcm2708_desc where
  "wrapped_desc =
     \<lparr>cookie = 0, dir = DMA_DEV_TO_MEM, control_block_size = 64,
      control_block_base =
        [\<lparr>info = 0x30411, src = 0x7E203004, dst = 0xFFFFFF00, length_cb = 256, next_cb = 0x5020\<rparr>,
         \<lparr>info = 0x30411, src = 0x7E203004, dst = 0, length_cb = 256, next_cb = 0x5000\<rparr>],
      control_block_base_phys = 0x5000, frames = 2, size_desc = 512\<rparr>"

text \<open>
  The sample channel after the sample descriptor was submitted, after it was issued, and
  after the transfer was terminated.
\<close>

definition queued_chan :: bcm2708_chan where
  "queued_chan = sample_chan\<lparr>vc := [sample_desc\<lparr>cookie := 1\<rparr>], chan_cookie := 1\<rparr>"

definition running_chan :: bcm2708_chan where
  "running_chan =
     sample_chan\<lparr>chan_cookie := 1, cyclic := True, desc := Some (sample_desc\<lparr>cookie := 1\<rparr>)\<rparr>"

definition idle_chan :: bcm2708_chan where
  "idle_chan = sample_chan\<lparr>chan_cookie := 1, cyclic := True\<rparr>"

section \<open>Properties\<close>

subsection \<open>The descriptor builder\<close>

lemma or_and_keep: "(x::u32) AND a = a \<Longrightarrow> (x OR y) AND a = a"
proof -
  assume h: "x AND a = a"
  have "(x OR y) AND a = (x AND a) OR (y AND a)" by (rule word_ao_dist)
  also have "\<dots> = a OR (y AND a)" by (simp only: h)
  also have "\<dots> = a" by simp
  finally show ?thesis .
qed

lemma setup_control_block_eq:
  "setup_control_block k c dev_addr sync_type buf_addr period_len d frame =
     (if frames d = 0 then Inl ModuloByZero
      else Inr \<lparr>info = cb_info k c (if dir d = DMA_DEV_TO_MEM then BCM2708_DMA_D_INC k
                                    else BCM2708_DMA_S_INC k) sync_type,
                src = (if dir d = DMA_DEV_TO_MEM then dev_addr
                       else buf_addr + frame * period_len),
                dst = (if dir d = DMA_DEV_TO_MEM then buf_addr + frame * period_len
                       else dev_addr),
                length_cb = period_len,
                next_cb = control_block_base_phys d
                          + sizeof_bcm2708_dma_cb k * ((frame + 1) mod frames d)\<rparr>)"
  by (simp add: setup_control_block_def Let_def zero_cb_def cb_info_def)

lemma cb_info_inc: "cb_info k c inc sync_type AND inc = inc"
proof -
  have a: "(inc OR BCM2708_DMA_INT_EN k) AND inc = inc" by simp
  note b = or_and_keep [OF a]
  note b' = or_and_keep [OF b]
  show ?thesis
    by (cases "sync_type = 0"; cases "slave_id (cfg c) = 0")
       (simp_all add: cb_info_def Let_def a b b')
qed

lemma cb_info_int_en:
  "cb_info k c inc sync_type AND BCM2708_DMA_INT_EN k = BCM2708_DMA_INT_EN k"
proof -
  have a: "(inc OR BCM2708_DMA_INT_EN k) AND BCM2708_DMA_INT_EN k = BCM2708_DMA_INT_EN k"
    by simp
  note b = or_and_keep [OF a]
  note b' = or_and_keep [OF b]
  show ?thesis
    by (cases "sync_type = 0"; cases "slave_id (cfg c) = 0")
       (simp_all add: cb_info_def Let_def a b b')
qed

lemma setup_control_block_cong:
  "dir d' = dir d \<Longrightarrow> frames d' = frames d \<Longrightarrow>
   control_block_base_phys d' = control_block_base_phys d \<Longrightarrow>
   setup_control_block k c dev_addr sync_type buf_addr period_len d' frame
   = setup_control_block k c dev_addr sync_type buf_addr period_len d frame"
  by (simp add: setup_control_block_eq)

lemma setup_control_block_length:
  "setup_control_block k c dev_addr sync_type buf_addr period_len d frame = Inr cb \<Longrightarrow>
   length_cb cb = period_len"
  by (auto simp: setup_control_block_eq split: if_splits)

text \<open>One round of the loop, when it returns a descriptor.\<close>

lemma build_control_blocks_step:
  assumes "build_control_blocks k c dev_addr sync_type buf_addr period_len d frame = Inr d'"
    and "frame < frames d"
  obtains cb where "unat frame < length (control_block_base d)"
    and "setup_control_block k c dev_addr sync_type buf_addr period_len d frame = Inr cb"
    and "build_control_blocks k c dev_addr sync_type buf_addr period_len
           (d\<lparr>control_block_base := (control_block_base d)[unat frame := cb],
              size_desc := size_desc d + length_cb cb\<rparr>) (frame + 1) = Inr d'"
  using assms
  by (subst (asm) build_control_blocks.simps) (auto split: if_splits sum.splits)

lemma build_control_blocks_done:
  "\<not> frame < frames d \<Longrightarrow>
   build_control_blocks k c dev_addr sync_type buf_addr period_len d frame = Inr d"
  by (subst build_control_blocks.simps) simp

lemma build_fields:
  "build_control_blocks k c dev_addr sync_type buf_addr period_len d frame = Inr d' \<Longrightarrow>
   dir d' = dir d \<and> frames d' = frames d
   \<and> control_block_base_phys d' = control_block_base_phys d
   \<and> control_block_size d' = control_block_size d \<and> cookie d' = cookie d
   \<and> length (control_block_base d') = length (control_block_base d)"
proof (induction k c dev_addr sync_type buf_addr period_len d frame arbitrary: d'
       rule: build_control_blocks.induct)
  case (1 k c dev_addr sync_type buf_addr period_len d frame)
  show ?case
  proof (cases "frame < frames d")
    case False
    with "1.prems" show ?thesis by (simp add: build_control_blocks_done)
  next
    case True
    from "1.prems" True obtain cb where
      inb: "unat frame < length (control_block_base d)" and
      cb: "setup_control_block k c dev_addr sync_type buf_addr period_len d frame = Inr cb" and
      rec: "build_control_blocks k c dev_addr sync_type buf_addr period_len
              (d\<lparr>control_block_base := (control_block_base d)[unat frame := cb],
                 size_desc := size_desc d + length_cb cb\<rparr>) (frame + 1) = Inr d'"
      by (rule build_control_blocks_step)
    from inb have "\<not> \<not> unat frame < length (control_block_base d)" by simp
    from "1.IH" [OF True this cb rec] show ?thesis by simp
  qed
qed

lemma build_capacity:
  "build_control_blocks k c dev_addr sync_type buf_addr period_len d frame = Inr d' \<Longrightarrow>
   frame < frames d \<Longrightarrow> unat (frames d) \<le> length (control_block_base d)"
proof (induction k c dev_addr sync_type buf_addr period_len d frame arbitrary: d'
       rule: build_control_blocks.induct)
  case (1 k c dev_addr sync_type buf_addr period_len d frame)
  from "1.prems" obtain cb where
    inb: "unat frame < length (control_block_base d)" and
    cb: "setup_control_block k c dev_addr sync_type buf_addr period_len d frame = Inr cb" and
    rec: "build_control_blocks k c dev_addr sync_type buf_addr period_len
            (d\<lparr>control_block_base := (control_block_base d)[unat frame := cb],
               size_desc := size_desc d + length_cb cb\<rparr>) (frame + 1) = Inr d'"
    by (rule build_control_blocks_step)
  from inb have nn: "\<not> \<not> unat frame < length (control_block_base d)" by simp
  show ?case
  proof (cases "frame + 1 < frames d")
    case True
    from "1.IH" [OF "1.prems"(2) nn cb rec] True show ?thesis by simp
  next
    case False
    with "1.prems"(2) have "unat (frames d) = Suc (unat frame)" by unat_arith
    with inb show ?thesis by simp
  qed
qed

lemma build_size:
  "build_control_blocks k c dev_addr sync_type buf_addr period_len d frame = Inr d' \<Longrightarrow>
   frame \<le> frames d \<Longrightarrow> size_desc d' = size_desc d + (frames d - frame) * period_len"
proof (induction k c dev_addr sync_type buf_addr period_len d frame arbitrary: d'
       rule: build_control_blocks.induct)
  case (1 k c dev_addr sync_type buf_addr period_len d frame)
  show ?case
  proof (cases "frame < frames d")
    case False
    with "1.prems" have "frame = frames d" by simp
    with "1.prems" False show ?thesis by (simp add: build_control_blocks_done)
  next
    case True
    from "1.prems"(1) True obtain cb where
      inb: "unat frame < length (control_block_base d)" and
      cb: "setup_control_block k c dev_addr sync_type buf_addr period_len d frame = Inr cb" and
      rec: "build_control_blocks k c dev_addr sync_type buf_addr period_len
              (d\<lparr>control_block_base := (control_block_base d)[unat frame := cb],
                 size_desc := size_desc d + length_cb cb\<rparr>) (frame + 1) = Inr d'"
      by (rule build_control_blocks_step)
    from inb have nn: "\<not> \<not> unat frame < length (control_block_base d)" by simp
    from True have le: "frame + 1 \<le> frames d" by (rule inc_le)
    from "1.IH" [OF True nn cb rec] le
    have "size_desc d' = size_desc d + length_cb cb + (frames d - (frame + 1)) * period_len"
      by simp
    with setup_control_block_length [OF cb] show ?thesis
      by (simp add: algebra_simps)
  qed
qed

lemma build_keep:
  "build_control_blocks k c dev_addr sync_type buf_addr period_len d frame = Inr d' \<Longrightarrow>
   i < unat frame \<Longrightarrow> control_block_base d' ! i = control_block_base d ! i"
proof (induction k c dev_addr sync_type buf_addr period_len d frame arbitrary: d'
       rule: build_control_blocks.induct)
  case (1 k c dev_addr sync_type buf_addr period_len d frame)
  show ?case
  proof (cases "frame < frames d")
    case False
    with "1.prems" show ?thesis by (simp add: build_control_blocks_done)
  next
    case True
    from "1.prems"(1) True obtain cb where
      inb: "unat frame < length (control_block_base d)" and
      cb: "setup_control_block k c dev_addr sync_type buf_addr period_len d frame = Inr cb" and
      rec: "build_control_blocks k c dev_addr sync_type buf_addr period_len
              (d\<lparr>control_block_base := (control_block_base d)[unat frame := cb],
                 size_desc := size_desc d + length_cb cb\<rparr>) (frame + 1) = Inr d'"
      by (rule build_control_blocks_step)
    from inb have nn: "\<not> \<not> unat frame < length (control_block_base d)" by simp
    from True have suc: "unat (frame + 1) = Suc (unat frame)" by unat_arith
    from "1.IH" [OF True nn cb rec] "1.prems"(2) suc show ?thesis by simp
  qed
qed

lemma build_nth:
  "build_control_blocks k c dev_addr sync_type buf_addr period_len d frame = Inr d' \<Longrightarrow>
   unat frame \<le> i \<Longrightarrow> i < unat (frames d) \<Longrightarrow>
   setup_control_block k c dev_addr sync_type buf_addr period_len d (of_nat i)
   = Inr (control_block_base d' ! i)"
proof (induction k c dev_addr sync_type buf_addr period_len d frame arbitrary: d'
       rule: build_control_blocks.induct)
  case (1 k c dev_addr sync_type buf_addr period_len d frame)
  from "1.prems"(2,3) have True: "frame < frames d" by unat_arith
  from "1.prems"(1) True obtain cb where
    inb: "unat frame < length (control_block_base d)" and
    cb: "setup_control_block k c dev_addr sync_type buf_addr period_len d frame = Inr cb" and
    rec: "build_control_blocks k c dev_addr sync_type buf_addr period_len
            (d\<lparr>control_block_base := (control_block_base d)[unat frame := cb],
               size_desc := size_desc d + length_cb cb\<rparr>) (frame + 1) = Inr d'"
    by (rule build_control_blocks_step)
  from inb have nn: "\<not> \<not> unat frame < length (control_block_base d)" by simp
  from True have suc: "unat (frame + 1) = Suc (unat frame)" by unat_arith
  let ?d1 = "d\<lparr>control_block_base := (control_block_base d)[unat frame := cb],
               size_desc := size_desc d + length_cb cb\<rparr>"
  show ?case
  proof (cases "i = unat frame")
    case True
    have "control_block_base d' ! i = control_block_base ?d1 ! i"
      using rec by (rule build_keep) (simp add: True suc)
    with inb True cb show ?thesis by simp
  next
    case False
    with "1.prems"(2) suc have "unat (frame + 1) \<le> i" by simp
    from "1.IH" [OF \<open>frame < frames d\<close> nn cb rec this] "1.prems"(3)
    have "setup_control_block k c dev_addr sync_type buf_addr period_len ?d1 (of_nat i)
          = Inr (control_block_base d' ! i)" by simp
    moreover have "setup_control_block k c dev_addr sync_type buf_addr period_len ?d1 (of_nat i)
          = setup_control_block k c dev_addr sync_type buf_addr period_len d (of_nat i)"
      by (rule setup_control_block_cong) simp_all
    ultimately show ?thesis by simp
  qed
qed

lemma build_total:
  "unat (frames d) \<le> length (control_block_base d) \<Longrightarrow>
   \<exists>d'. build_control_blocks k c dev_addr sync_type buf_addr period_len d frame = Inr d'"
proof (induction k c dev_addr sync_type buf_addr period_len d frame
       rule: build_control_blocks.induct)
  case (1 k c dev_addr sync_type buf_addr period_len d frame)
  show ?case
  proof (cases "frame < frames d")
    case False
    then show ?thesis by (simp add: build_control_blocks_done)
  next
    case True
    then have nz: "frames d \<noteq> 0" by auto
    from True "1.prems" have inb: "unat frame < length (control_block_base d)"
      by unat_arith
    then have nn: "\<not> \<not> unat frame < length (control_block_base d)" by simp
    from nz obtain cb where
      cb: "setup_control_block k c dev_addr sync_type buf_addr period_len d frame = Inr cb"
      by (simp add: setup_control_block_eq)
    from "1.IH" [OF True nn cb] "1.prems" obtain d' where
      "build_control_blocks k c dev_addr sync_type buf_addr period_len
         (d\<lparr>control_block_base := (control_block_base d)[unat frame := cb],
            size_desc := size_desc d + length_cb cb\<rparr>) (frame + 1) = Inr d'"
      by auto
    with True inb cb show ?thesis
      by (subst build_control_blocks.simps) simp
  qed
qed

lemma prep_Inr:
  assumes "bcm2708_dma_prep_dma_cyclic k a c buf_addr buf_len period_len direction' = (Inr d, ev)"
  obtains phys where
    "direction' = DMA_DEV_TO_MEM \<or> direction' = DMA_MEM_TO_DEV"
    "period_len \<noteq> 0"
    "dma_zalloc_coherent a (buf_len div period_len * sizeof_bcm2708_dma_cb k) = Some phys"
    "build_control_blocks k c (dev_addr_of c direction') (sync_type_of k direction')
       buf_addr period_len (alloc_desc k buf_len period_len direction' phys) 0 = Inr d"
    "ev = [Kzalloc True,
           DmaZallocCoherent (buf_len div period_len * sizeof_bcm2708_dma_cb k) (Some phys)]"
  using assms
  by (auto simp: bcm2708_dma_prep_dma_cyclic_def grab_configuration_def Let_def
        alloc_desc_def dev_addr_of_def sync_type_of_def vchan_tx_prep_def
      split: if_splits option.splits sum.splits)

lemma capacity_le: "unat (f * s) div unat s \<le> unat (f::u32)"
proof (cases "unat s = 0")
  case True
  then show ?thesis by simp
next
  case False
  have "unat (f * s) \<le> unat f * unat s"
    by (simp add: unat_word_ariths)
  then have "unat (f * s) div unat s \<le> unat f * unat s div unat s"
    by (rule div_le_mono)
  with False show ?thesis by simp
qed

lemma prep_fields:
  assumes "bcm2708_dma_prep_dma_cyclic k a c buf_addr buf_len period_len direction' = (Inr d, ev)"
  shows "dir d = direction' \<and> frames d = buf_len div period_len
         \<and> control_block_size d = frames d * sizeof_bcm2708_dma_cb k
         \<and> length (control_block_base d) = unat (frames d)
         \<and> size_desc d = frames d * period_len \<and> period_len \<noteq> 0
         \<and> (direction' = DMA_DEV_TO_MEM \<or> direction' = DMA_MEM_TO_DEV)
         \<and> dma_zalloc_coherent a (control_block_size d) = Some (control_block_base_phys d)"
proof -
  from assms obtain phys where
    dirs: "direction' = DMA_DEV_TO_MEM \<or> direction' = DMA_MEM_TO_DEV" and
    nz: "period_len \<noteq> 0" and
    al: "dma_zalloc_coherent a (buf_len div period_len * sizeof_bcm2708_dma_cb k) = Some phys" and
    b: "build_control_blocks k c (dev_addr_of c direction') (sync_type_of k direction')
          buf_addr period_len (alloc_desc k buf_len period_len direction' phys) 0 = Inr d"
    by (rule prep_Inr)
  let ?d0 = "alloc_desc k buf_len period_len direction' phys"
  note f = build_fields [OF b]
  have fr: "frames d = buf_len div period_len" and di: "dir d = direction'"
    and ph: "control_block_base_phys d = phys"
    and cs: "control_block_size d = frames d * sizeof_bcm2708_dma_cb k"
    using f by (simp_all add: alloc_desc_def zero_desc_def)
  have len0: "length (control_block_base d)
              = unat (frames d * sizeof_bcm2708_dma_cb k) div unat (sizeof_bcm2708_dma_cb k)"
    using f by (simp add: alloc_desc_def zero_desc_def)
  have le: "length (control_block_base d) \<le> unat (frames d)"
    unfolding len0 by (rule capacity_le)
  have ge: "unat (frames d) \<le> length (control_block_base d)"
  proof (cases "0 < frames ?d0")
    case True
    from build_capacity [OF b True] f show ?thesis by simp
  next
    case False
    then have "frames ?d0 = 0" by unat_arith
    with f show ?thesis by simp
  qed
  have "size_desc d = size_desc ?d0 + (frames ?d0 - 0) * period_len"
    using b by (rule build_size) simp
  then have sz: "size_desc d = frames d * period_len"
    using f by (simp add: alloc_desc_def zero_desc_def)
  from fr di cs le ge sz nz dirs al ph show ?thesis by simp
qed

lemma prep_nth:
  assumes "bcm2708_dma_prep_dma_cyclic k a c buf_addr buf_len period_len direction' = (Inr d, ev)"
    and "i < unat (frames d)"
  shows "control_block_base d ! i =
           \<lparr>info = cb_info k c (if direction' = DMA_DEV_TO_MEM then BCM2708_DMA_D_INC k
                                else BCM2708_DMA_S_INC k) (sync_type_of k direction'),
            src = (if direction' = DMA_DEV_TO_MEM then dev_addr_of c direction'
                   else buf_addr + of_nat i * period_len),
            dst = (if direction' = DMA_DEV_TO_MEM then buf_addr + of_nat i * period_len
                   else dev_addr_of c direction'),
            length_cb = period_len,
            next_cb = control_block_base_phys d
                      + sizeof_bcm2708_dma_cb k * ((of_nat i + 1) mod frames d)\<rparr>"
proof -
  from assms(1) obtain phys where
    b: "build_control_blocks k c (dev_addr_of c direction') (sync_type_of k direction')
          buf_addr period_len (alloc_desc k buf_len period_len direction' phys) 0 = Inr d"
    by (rule prep_Inr)
  let ?d0 = "alloc_desc k buf_len period_len direction' phys"
  note f = build_fields [OF b]
  from assms(2) f have i: "i < unat (frames ?d0)" by simp
  then have nz: "frames ?d0 \<noteq> 0" by (auto simp: unat_gt_0 [symmetric])
  have "setup_control_block k c (dev_addr_of c direction') (sync_type_of k direction')
          buf_addr period_len ?d0 (of_nat i) = Inr (control_block_base d ! i)"
    using b _ i by (rule build_nth) simp
  with nz f show ?thesis
    by (simp add: setup_control_block_eq alloc_desc_def zero_desc_def)
qed

text \<open>
  When the builder returns a descriptor: the direction and the width are accepted, both
  allocations succeed, \<open>period_len\<close> is not zero and the size of the control-block array
  fits in 32 bits.
\<close>

lemma prep_dma_cyclic_returns:
  assumes dirs: "direction' = DMA_DEV_TO_MEM \<or> direction' = DMA_MEM_TO_DEV"
    and width: "(if direction' = DMA_DEV_TO_MEM then src_addr_width (cfg c)
                 else dst_addr_width (cfg c)) = DMA_SLAVE_BUSWIDTH_4_BYTES"
    and kz: "kzalloc_ok a" and nz: "period_len \<noteq> 0"
    and al: "dma_zalloc_coherent a (buf_len div period_len * sizeof_bcm2708_dma_cb k) = Some phys"
    and fits: "unat (buf_len div period_len) * unat (sizeof_bcm2708_dma_cb k) < 2 ^ 32"
    and sz: "sizeof_bcm2708_dma_cb k \<noteq> 0"
  shows "\<exists>d. bcm2708_dma_prep_dma_cyclic k a c buf_addr buf_len period_len direction'
              = (Inr d, [Kzalloc True,
                         DmaZallocCoherent (buf_len div period_len * sizeof_bcm2708_dma_cb k)
                           (Some phys)])"
proof -
  let ?d0 = "alloc_desc k buf_len period_len direction' phys"
  from fits have "unat (buf_len div period_len) * unat (sizeof_bcm2708_dma_cb k)
                  < 2 ^ LENGTH(32)" by simp
  then have "unat (buf_len div period_len * sizeof_bcm2708_dma_cb k)
             = unat (buf_len div period_len) * unat (sizeof_bcm2708_dma_cb k)"
    by (rule unat_mult_lem [THEN iffD1])
  moreover from sz have "0 < unat (sizeof_bcm2708_dma_cb k)" by (simp add: unat_gt_0)
  ultimately have "unat (frames ?d0) \<le> length (control_block_base ?d0)"
    by (simp add: alloc_desc_def zero_desc_def)
  then obtain d where
    "build_control_blocks k c (dev_addr_of c direction') (sync_type_of k direction')
       buf_addr period_len ?d0 0 = Inr d"
    using build_total by blast
  with dirs width kz nz al show ?thesis
    by (auto simp: bcm2708_dma_prep_dma_cyclic_def grab_configuration_def Let_def
          alloc_desc_def dev_addr_of_def sync_type_of_def)
qed

text \<open>
  The size of the array is computed in 32 bits. For \<open>2^27 + 1\<close> frames of one byte and
  control blocks of 32 bytes it wraps around to 32, the block holds one control block, and
  the second round of the loop stores past its end.
\<close>

lemma prep_dma_cyclic_size_wraps:
  "bcm2708_dma_prep_dma_cyclic sample_mach_dma sample_allocator sample_chan
     0 0x8000001 1 DMA_DEV_TO_MEM
   = (Inl OutOfBounds, [Kzalloc True, DmaZallocCoherent 32 (Some 0x5000)])"
  by code_simp

lemma word_mod_succ:
  "i < unat (f::u32) \<Longrightarrow> (of_nat i + 1) mod f = of_nat ((i + 1) mod unat f)"
proof -
  assume i: "i < unat f"
  from i have "unat (of_nat i + 1 :: u32) = Suc i"
    using le_unat_uoi [of "Suc i" f] by (simp add: ac_simps)
  then have a: "unat ((of_nat i + 1 :: u32) mod f) = (i + 1) mod unat f"
    by (simp add: unat_mod)
  from i have "(i + 1) mod unat f \<le> unat f" by simp
  then have "unat (of_nat ((i + 1) mod unat f) :: u32) = (i + 1) mod unat f"
    by (rule le_unat_uoi)
  with a show ?thesis by (simp only: word_unat_eq_iff)
qed

lemma word_div_mult_exact:
  "unat (p::u32) dvd unat b \<Longrightarrow> b div p * p = b"
proof -
  assume "unat p dvd unat b"
  then have e: "unat (b div p) * unat p = unat b"
    by (simp add: unat_div)
  have "unat b < 2 ^ LENGTH(32)" by (rule unsigned_less)
  with e have "unat (b div p) * unat p < 2 ^ LENGTH(32)" by simp
  then have "unat (b div p * p) = unat (b div p) * unat p"
    by (rule unat_mult_lem [THEN iffD1])
  with e show ?thesis by (simp add: word_unat_eq_iff)
qed

lemma sum_list_const:
  "(\<And>i. i < length xs \<Longrightarrow> f (xs ! i) = (c::nat)) \<Longrightarrow> sum_list (map f xs) = length xs * c"
proof -
  assume h: "\<And>i. i < length xs \<Longrightarrow> f (xs ! i) = c"
  have "map f xs = replicate (length xs) c"
    by (rule nth_equalityI) (simp_all add: h)
  then show ?thesis by (simp add: sum_list_replicate)
qed

text \<open>
  Claim C1. Whenever \<open>period_len\<close> divides \<open>buf_len\<close> exactly into at least one frame, the
  descriptor that \<open>bcm2708_dma_prep_dma_cyclic\<close> returns has exactly
  \<open>frames = buf_len / period_len\<close> control blocks; the \<open>next\<close> field of block \<open>i\<close> is the physical
  address of block \<open>(i + 1) mod frames\<close>, so the last block points back to the first one,
  whose address is the base address of the chain; every block has the length \<open>period_len\<close>,
  and the lengths add up (without wrapping) to \<open>buf_len\<close>, which is also the size stored in
  the descriptor.
\<close>

theorem prep_dma_cyclic_circular_chain:
  assumes built:
      "bcm2708_dma_prep_dma_cyclic k a c buf_addr buf_len period_len direction' = (Inr d, ev)"
    and exact: "unat period_len dvd unat buf_len"
    and frames1: "1 \<le> buf_len div period_len"
  shows "frames d = buf_len div period_len
       \<and> length (control_block_base d) = unat (frames d)
       \<and> (\<forall>i < unat (frames d).
            next_cb (control_block_base d ! i)
            = control_block_phys k d ((i + 1) mod unat (frames d)))
       \<and> next_cb (last (control_block_base d)) = control_block_phys k d 0
       \<and> control_block_phys k d 0 = control_block_base_phys d
       \<and> (\<forall>i < unat (frames d). length_cb (control_block_base d ! i) = period_len)
       \<and> (\<Sum>cb \<leftarrow> control_block_base d. unat (length_cb cb)) = unat buf_len
       \<and> size_desc d = buf_len"
proof -
  note f = prep_fields [OF built]
  from f have fr: "frames d = buf_len div period_len"
    and len: "length (control_block_base d) = unat (frames d)" by simp_all
  have nxt: "next_cb (control_block_base d ! i)
             = control_block_phys k d ((i + 1) mod unat (frames d))"
    if "i < unat (frames d)" for i
    using that by (simp add: prep_nth [OF built that] control_block_phys_def word_mod_succ)
  have lens: "length_cb (control_block_base d ! i) = period_len"
    if "i < unat (frames d)" for i
    by (simp add: prep_nth [OF built that])
  from frames1 fr have pos: "0 < unat (frames d)"
    by (simp add: word_le_nat_alt)
  with len have ne: "control_block_base d \<noteq> []" by auto
  have "next_cb (last (control_block_base d)) = control_block_phys k d 0"
    using pos by (simp add: last_conv_nth [OF ne] len nxt)
  moreover have "(\<Sum>cb \<leftarrow> control_block_base d. unat (length_cb cb))
                 = length (control_block_base d) * unat period_len"
    by (rule sum_list_const) (simp add: len lens)
  then have "(\<Sum>cb \<leftarrow> control_block_base d. unat (length_cb cb)) = unat buf_len"
    using exact by (simp add: len fr unat_div)
  moreover have "size_desc d = buf_len"
    using f exact by (simp add: word_div_mult_exact)
  ultimately show ?thesis
    using fr len nxt lens by (simp add: control_block_phys_def)
qed

theorem prep_dma_cyclic_circular_chain_witness:
  "bcm2708_dma_prep_dma_cyclic sample_mach_dma sample_allocator sample_chan
       0x1000 4096 1024 DMA_DEV_TO_MEM
     = (Inr sample_desc, [Kzalloc True, DmaZallocCoherent 128 (Some 0x5000)])
   \<and> unat (1024 :: u32) dvd unat (4096 :: u32)
   \<and> (1 :: u32) \<le> 4096 div 1024
   \<and> frames sample_desc = 4096 div 1024
   \<and> length (control_block_base sample_desc) = unat (frames sample_desc)
   \<and> next_cb (control_block_base sample_desc ! 0)
       = control_block_phys sample_mach_dma sample_desc ((0 + 1) mod unat (frames sample_desc))
   \<and> next_cb (control_block_base sample_desc ! 3)
       = control_block_phys sample_mach_dma sample_desc ((3 + 1) mod unat (frames sample_desc))
   \<and> next_cb (last (control_block_base sample_desc))
       = control_block_phys sample_mach_dma sample_desc 0
   \<and> control_block_phys sample_mach_dma sample_desc 0 = control_block_base_phys sample_desc
   \<and> length_cb (control_block_base sample_desc ! 0) = 1024
   \<and> length_cb (control_block_base sample_desc ! 3) = 1024
   \<and> (\<Sum>cb \<leftarrow> control_block_base sample_desc. unat (length_cb cb)) = unat (4096 :: u32)
   \<and> size_desc sample_desc = 4096"
proof -
  have built:
    "bcm2708_dma_prep_dma_cyclic sample_mach_dma sample_allocator sample_chan
       0x1000 4096 1024 DMA_DEV_TO_MEM
     = (Inr sample_desc, [Kzalloc True, DmaZallocCoherent 128 (Some 0x5000)])"
    by code_simp
  have exact: "unat (1024 :: u32) dvd unat (4096 :: u32)" by simp
  have frames1: "(1 :: u32) \<le> 4096 div 1024" by simp
  have lt: "0 < unat (frames sample_desc)" "3 < unat (frames sample_desc)"
    by (simp_all add: sample_desc_def)
  from prep_dma_cyclic_circular_chain [OF built exact frames1] lt built exact frames1
  show ?thesis by blast
qed

text \<open>
  Claim C3. A call with a direction other than device-to-memory and memory-to-device fails
  with \<open>InvalidDirection\<close>, and a call whose endpoint width for the direction is not 4 bytes
  fails with \<open>UnsupportedWidth\<close>; in both cases the trace of the call holds no allocation.
\<close>

theorem prep_dma_cyclic_rejects_before_allocating:
  "(direction' \<noteq> DMA_DEV_TO_MEM \<and> direction' \<noteq> DMA_MEM_TO_DEV \<longrightarrow>
      fst (bcm2708_dma_prep_dma_cyclic k a c buf_addr buf_len period_len direction')
        = Inl InvalidDirection
      \<and> filter is_alloc
           (snd (bcm2708_dma_prep_dma_cyclic k a c buf_addr buf_len period_len direction')) = [])
   \<and> (src_addr_width (cfg c) \<noteq> DMA_SLAVE_BUSWIDTH_4_BYTES \<longrightarrow>
        bcm2708_dma_prep_dma_cyclic k a c buf_addr buf_len period_len DMA_DEV_TO_MEM
          = (Inl UnsupportedWidth, []))
   \<and> (dst_addr_width (cfg c) \<noteq> DMA_SLAVE_BUSWIDTH_4_BYTES \<longrightarrow>
        bcm2708_dma_prep_dma_cyclic k a c buf_addr buf_len period_len DMA_MEM_TO_DEV
          = (Inl UnsupportedWidth, []))"
proof -
  have w: "element_size w = None" if "w \<noteq> DMA_SLAVE_BUSWIDTH_4_BYTES" for w
    using that by (cases w) simp_all
  show ?thesis
    by (simp add: bcm2708_dma_prep_dma_cyclic_def grab_configuration_def w)
qed

theorem prep_dma_cyclic_rejects_before_allocating_witness:
  "fst (bcm2708_dma_prep_dma_cyclic sample_mach_dma sample_allocator sample_chan
          0x1000 4096 1024 DMA_MEM_TO_MEM) = Inl InvalidDirection
   \<and> filter is_alloc
         (snd (bcm2708_dma_prep_dma_cyclic sample_mach_dma sample_allocator sample_chan
                 0x1000 4096 1024 DMA_MEM_TO_MEM)) = []
   \<and> bcm2708_dma_prep_dma_cyclic sample_mach_dma sample_allocator narrow_chan
         0x1000 4096 1024 DMA_DEV_TO_MEM = (Inl UnsupportedWidth, [])"
proof -
  have "src_addr_width (cfg narrow_chan) \<noteq> DMA_SLAVE_BUSWIDTH_4_BYTES"
    by (simp add: narrow_chan_def)
  with prep_dma_cyclic_rejects_before_allocating
         [where direction' = DMA_MEM_TO_MEM and k = sample_mach_dma and a = sample_allocator
            and c = sample_chan and buf_addr = "0x1000" and buf_len = 4096 and period_len = 1024]
       prep_dma_cyclic_rejects_before_allocating
         [where direction' = DMA_MEM_TO_MEM and k = sample_mach_dma and a = sample_allocator
            and c = narrow_chan and buf_addr = "0x1000" and buf_len = 4096 and period_len = 1024]
  show ?thesis by simp
qed

lemma prep_trace:
  "snd (bcm2708_dma_prep_dma_cyclic k a c buf_addr buf_len period_len direction') = ev \<Longrightarrow>
   DmaZallocCoherent sz None \<in> set ev \<Longrightarrow>
   ev = [Kzalloc True, DmaZallocCoherent sz None, Kfree]
   \<and> fst (bcm2708_dma_prep_dma_cyclic k a c buf_addr buf_len period_len direction')
       = Inl OutOfMemory"
  by (auto simp: bcm2708_dma_prep_dma_cyclic_def Let_def
      split: option.splits if_splits sum.splits prod.splits)

text \<open>
  Claim C4. Every call in which \<open>dma_zalloc_coherent\<close> fails returns \<open>OutOfMemory\<close>, and its
  trace is the allocation of the descriptor, the failed allocation of the control blocks
  and the release of the descriptor: nothing is held when the call returns. The coherent
  allocation is reached, and fails, whenever the direction and the width are accepted,
  \<open>kzalloc\<close> succeeds, \<open>period_len\<close> is not zero and the allocator has no block of the
  requested size.
\<close>

theorem prep_dma_cyclic_coherent_alloc_failure:
  "(DmaZallocCoherent sz None
      \<in> set (snd (bcm2708_dma_prep_dma_cyclic k a c buf_addr buf_len period_len direction')) \<longrightarrow>
      bcm2708_dma_prep_dma_cyclic k a c buf_addr buf_len period_len direction'
        = (Inl OutOfMemory, [Kzalloc True, DmaZallocCoherent sz None, Kfree])
      \<and> outstanding
           (snd (bcm2708_dma_prep_dma_cyclic k a c buf_addr buf_len period_len direction')) = 0)
   \<and> ((direction' = DMA_DEV_TO_MEM \<or> direction' = DMA_MEM_TO_DEV)
       \<and> element_size (if direction' = DMA_DEV_TO_MEM then src_addr_width (cfg c)
                        else dst_addr_width (cfg c)) \<noteq> None
       \<and> kzalloc_ok a \<and> period_len \<noteq> 0
       \<and> dma_zalloc_coherent a (buf_len div period_len * sizeof_bcm2708_dma_cb k) = None \<longrightarrow>
       DmaZallocCoherent (buf_len div period_len * sizeof_bcm2708_dma_cb k) None
         \<in> set (snd (bcm2708_dma_prep_dma_cyclic k a c buf_addr buf_len period_len direction')))"
proof -
  have a: "bcm2708_dma_prep_dma_cyclic k a c buf_addr buf_len period_len direction'
        = (Inl OutOfMemory, [Kzalloc True, DmaZallocCoherent sz None, Kfree])"
    if "DmaZallocCoherent sz None
      \<in> set (snd (bcm2708_dma_prep_dma_cyclic k a c buf_addr buf_len period_len direction'))"
    using prep_trace [OF refl that] by (simp add: prod_eq_iff)
  have b: "DmaZallocCoherent (buf_len div period_len * sizeof_bcm2708_dma_cb k) None
         \<in> set (snd (bcm2708_dma_prep_dma_cyclic k a c buf_addr buf_len period_len direction'))"
    if "direction' = DMA_DEV_TO_MEM \<or> direction' = DMA_MEM_TO_DEV"
      and "element_size (if direction' = DMA_DEV_TO_MEM then src_addr_width (cfg c)
                        else dst_addr_width (cfg c)) \<noteq> None"
      and "kzalloc_ok a" and "period_len \<noteq> 0"
      and "dma_zalloc_coherent a (buf_len div period_len * sizeof_bcm2708_dma_cb k) = None"
    using that
    by (auto simp: bcm2708_dma_prep_dma_cyclic_def grab_configuration_def Let_def)
  from a b show ?thesis by auto
qed

theorem prep_dma_cyclic_coherent_alloc_failure_witness:
  "bcm2708_dma_prep_dma_cyclic sample_mach_dma failing_allocator sample_chan
      0x1000 4096 1024 DMA_DEV_TO_MEM
    = (Inl OutOfMemory, [Kzalloc True, DmaZallocCoherent 128 None, Kfree])
   \<and> outstanding
        (snd (bcm2708_dma_prep_dma_cyclic sample_mach_dma failing_allocator sample_chan
                0x1000 4096 1024 DMA_DEV_TO_MEM)) = 0"
proof -
  have "DmaZallocCoherent 128 None
      \<in> set (snd (bcm2708_dma_prep_dma_cyclic sample_mach_dma failing_allocator sample_chan
                0x1000 4096 1024 DMA_DEV_TO_MEM))"
    by code_simp
  with prep_dma_cyclic_coherent_alloc_failure
         [where sz = 128 and k = sample_mach_dma and a = failing_allocator and c = sample_chan
            and buf_addr = "0x1000" and buf_len = 4096 and period_len = 1024
            and direction' = DMA_DEV_TO_MEM]
  show ?thesis by blast
qed

lemma build_never_modulo_by_zero:
  "build_control_blocks k c dev_addr sync_type buf_addr period_len d frame \<noteq> Inl ModuloByZero"
proof (induction k c dev_addr sync_type buf_addr period_len d frame
       rule: build_control_blocks.induct)
  case (1 k c dev_addr sync_type buf_addr period_len d frame)
  show ?case
  proof (cases "frame < frames d")
    case False
    then show ?thesis by (simp add: build_control_blocks_done)
  next
    case True
    then have nz: "frames d \<noteq> 0" by auto
    show ?thesis
    proof (cases "unat frame < length (control_block_base d)")
      case False
      with True show ?thesis by (subst build_control_blocks.simps) simp
    next
      case inb: True
      then have nn: "\<not> \<not> unat frame < length (control_block_base d)" by simp
      from nz obtain cb where
        cb: "setup_control_block k c dev_addr sync_type buf_addr period_len d frame = Inr cb"
        by (simp add: setup_control_block_eq)
      from "1.IH" [OF True nn cb] True inb cb show ?thesis
        by (subst build_control_blocks.simps) simp
    qed
  qed
qed

lemma prep_never_modulo_by_zero:
  "fst (bcm2708_dma_prep_dma_cyclic k a c buf_addr buf_len period_len direction')
   \<noteq> Inl ModuloByZero"
  by (auto simp: bcm2708_dma_prep_dma_cyclic_def Let_def build_never_modulo_by_zero
      split: option.splits sum.splits)

text \<open>
  Claim C10, as amended. No call ends in a remainder by zero: with \<open>buf_len < period_len\<close>
  the frame count is 0, the loop over the frames runs no round and \<open>(frame + 1) % d->frames\<close>
  is never evaluated. With an accepted direction and width the call then returns a
  descriptor without control blocks and of size 0 when both allocations succeed, and
  \<open>OutOfMemory\<close> when the coherent allocation of 0 bytes fails. The only undefined arithmetic
  of the builder is the division \<open>buf_len / period_len\<close> for \<open>period_len = 0\<close>.
\<close>

theorem prep_dma_cyclic_no_frames:
  "fst (bcm2708_dma_prep_dma_cyclic k a c buf_addr buf_len period_len direction')
     \<noteq> Inl ModuloByZero
   \<and> (buf_len < period_len
       \<and> grab_configuration k c direction'
           = Some (dev_addr, DMA_SLAVE_BUSWIDTH_4_BYTES, sync_type)
       \<and> kzalloc_ok a \<and> dma_zalloc_coherent a 0 = Some phys \<longrightarrow>
       bcm2708_dma_prep_dma_cyclic k a c buf_addr buf_len period_len direction'
         = (Inr (zero_desc\<lparr>dir := direction', control_block_base_phys := phys\<rparr>),
            [Kzalloc True, DmaZallocCoherent 0 (Some phys)]))
   \<and> (buf_len < period_len
       \<and> grab_configuration k c direction'
           = Some (dev_addr, DMA_SLAVE_BUSWIDTH_4_BYTES, sync_type)
       \<and> kzalloc_ok a \<and> dma_zalloc_coherent a 0 = None \<longrightarrow>
       bcm2708_dma_prep_dma_cyclic k a c buf_addr buf_len period_len direction'
         = (Inl OutOfMemory, [Kzalloc True, DmaZallocCoherent 0 None, Kfree]))
   \<and> (grab_configuration k c direction'
           = Some (dev_addr, DMA_SLAVE_BUSWIDTH_4_BYTES, sync_type)
       \<and> kzalloc_ok a \<and> period_len = 0 \<longrightarrow>
       bcm2708_dma_prep_dma_cyclic k a c buf_addr buf_len period_len direction'
         = (Inl DivisionByZero, [Kzalloc True]))"
proof -
  have z: "buf_len div period_len = 0" "period_len \<noteq> 0" if "buf_len < period_len"
  proof -
    from that have "unat buf_len < unat period_len" by (simp add: word_less_nat_alt)
    then show "buf_len div period_len = 0" by (simp add: word_arith_nat_div)
    from that show "period_len \<noteq> 0" by unat_arith
  qed
  have e: "build_control_blocks k c dev_addr sync_type buf_addr period_len d 0 = Inr d"
    if "frames d = 0" for d
    using that by (simp add: build_control_blocks_done)
  show ?thesis
  proof (intro conjI impI)
    show "fst (bcm2708_dma_prep_dma_cyclic k a c buf_addr buf_len period_len direction')
          \<noteq> Inl ModuloByZero"
      by (rule prep_never_modulo_by_zero)
  qed (auto simp: bcm2708_dma_prep_dma_cyclic_def Let_def z e zero_desc_def vchan_tx_prep_def)
qed

theorem prep_dma_cyclic_no_frames_witness:
  "bcm2708_dma_prep_dma_cyclic sample_mach_dma sample_allocator sample_chan
      0x1000 512 1024 DMA_DEV_TO_MEM
    = (Inr (zero_desc\<lparr>dir := DMA_DEV_TO_MEM, control_block_base_phys := 0x5000\<rparr>),
       [Kzalloc True, DmaZallocCoherent 0 (Some 0x5000)])
   \<and> bcm2708_dma_prep_dma_cyclic sample_mach_dma sample_allocator sample_chan
      0x1000 512 0 DMA_DEV_TO_MEM = (Inl DivisionByZero, [Kzalloc True])"
proof -
  have g: "grab_configuration sample_mach_dma sample_chan DMA_DEV_TO_MEM
           = Some (0x7E203004, DMA_SLAVE_BUSWIDTH_4_BYTES, 0x400)"
    by (simp add: grab_configuration_def sample_chan_def sample_mach_dma_def)
  have al: "kzalloc_ok sample_allocator" "dma_zalloc_coherent sample_allocator 0 = Some 0x5000"
    by (simp_all add: sample_allocator_def)
  have lt: "(512 :: u32) < 1024" by simp
  from prep_dma_cyclic_no_frames
         [where k = sample_mach_dma and a = sample_allocator and c = sample_chan
            and buf_addr = "0x1000" and buf_len = 512 and period_len = 1024
            and direction' = DMA_DEV_TO_MEM and dev_addr = "0x7E203004"
            and sync_type = "0x400" and phys = "0x5000"]
       prep_dma_cyclic_no_frames
         [where k = sample_mach_dma and a = sample_allocator and c = sample_chan
            and buf_addr = "0x1000" and buf_len = 512 and period_len = 0
            and direction' = DMA_DEV_TO_MEM and dev_addr = "0x7E203004"
            and sync_type = "0x400" and phys = "0x5000"]
       g al lt
  show ?thesis by simp
qed

text \<open>
  The claim as it was stated fails for a buffer of 512 bytes and a period of 1024 bytes: the
  builder is defined there and returns the empty descriptor.
\<close>

theorem prep_dma_cyclic_no_frames_counterexample:
  "(512 :: u32) < 1024
   \<and> bcm2708_dma_prep_dma_cyclic sample_mach_dma sample_allocator sample_chan
        0x1000 512 1024 DMA_DEV_TO_MEM
      = (Inr empty_desc, [Kzalloc True, DmaZallocCoherent 0 (Some 0x5000)])
   \<and> frames empty_desc = 0 \<and> control_block_base empty_desc = []"
  by code_simp

text \<open>A frame below \<open>buf_len / period_len\<close> lies inside the buffer.\<close>

lemma frame_inside:
  assumes "i < unat (buf_len div period_len)"
  shows "Suc i * unat period_len \<le> unat (buf_len :: u32)"
proof -
  from assms have "Suc i \<le> unat buf_len div unat period_len"
    by (simp add: unat_div)
  then have "Suc i * unat period_len \<le> unat buf_len div unat period_len * unat period_len"
    by (rule mult_le_mono1)
  also have "\<dots> \<le> unat buf_len" by simp
  finally show ?thesis .
qed

lemma frame_addr_unat:
  assumes i: "i < unat (buf_len div period_len)"
    and nowrap: "unat buf_addr + unat buf_len \<le> 2 ^ 32"
  shows "unat (buf_addr + of_nat i * period_len) = unat buf_addr + i * unat (period_len :: u32)"
proof -
  from i have pos: "0 < unat period_len"
    by (cases "unat period_len = 0") (simp_all add: unat_div)
  from frame_inside [OF i] have le: "i * unat period_len + unat period_len \<le> unat buf_len"
    by simp
  from i have ui: "unat (of_nat i :: u32) = i"
    using le_unat_uoi [of i "buf_len div period_len"] by simp
  have "unat buf_len < 2 ^ LENGTH(32)" by (rule unsigned_less)
  with le pos have "unat (of_nat i :: u32) * unat period_len < 2 ^ LENGTH(32)"
    by (simp add: ui)
  then have um: "unat (of_nat i * period_len) = i * unat period_len"
    by (simp only: unat_mult_lem [THEN iffD1] ui)
  from le pos nowrap have "unat buf_addr + unat (of_nat i * period_len) < 2 ^ LENGTH(32)"
    by (simp add: um)
  then show ?thesis
    by (simp only: unat_add_lem [THEN iffD1] um)
qed

text \<open>
  Claim C2, as amended. In every descriptor built for device-to-memory, block \<open>i\<close> has the
  destination \<open>buf_addr + i * period_len\<close> and the source \<open>cfg.src_addr\<close>, and its flag word
  has the destination-increment and the interrupt-enable flags set; for memory-to-device
  the source advances, the destination is \<open>cfg.dst_addr\<close> and the source-increment flag is
  set. If the buffer does not wrap around the 32-bit address space
  (\<open>buf_addr + buf_len \<le> 2^32\<close>), the advancing addresses are \<open>buf_addr + i * period_len\<close> as
  numbers, strictly increasing, and a block ends where or before the next one starts.
\<close>

theorem prep_dma_cyclic_addresses:
  assumes built:
      "bcm2708_dma_prep_dma_cyclic k a c buf_addr buf_len period_len direction' = (Inr d, ev)"
  shows "(direction' = DMA_DEV_TO_MEM \<longrightarrow>
            (\<forall>i < unat (frames d).
               dst (control_block_base d ! i) = buf_addr + of_nat i * period_len
               \<and> src (control_block_base d ! i) = src_addr (cfg c)
               \<and> info (control_block_base d ! i) AND BCM2708_DMA_D_INC k = BCM2708_DMA_D_INC k
               \<and> info (control_block_base d ! i) AND BCM2708_DMA_INT_EN k
                   = BCM2708_DMA_INT_EN k))
       \<and> (direction' = DMA_MEM_TO_DEV \<longrightarrow>
            (\<forall>i < unat (frames d).
               src (control_block_base d ! i) = buf_addr + of_nat i * period_len
               \<and> dst (control_block_base d ! i) = dst_addr (cfg c)
               \<and> info (control_block_base d ! i) AND BCM2708_DMA_S_INC k = BCM2708_DMA_S_INC k
               \<and> info (control_block_base d ! i) AND BCM2708_DMA_INT_EN k
                   = BCM2708_DMA_INT_EN k))
       \<and> (unat buf_addr + unat buf_len \<le> 2 ^ 32 \<longrightarrow>
            (\<forall>i < unat (frames d).
               unat (buf_addr + of_nat i * period_len) = unat buf_addr + i * unat period_len)
            \<and> (\<forall>i j. i < j \<and> j < unat (frames d) \<longrightarrow>
                 buf_addr + of_nat i * period_len < buf_addr + of_nat j * period_len
                 \<and> unat (buf_addr + of_nat i * period_len) + unat period_len
                     \<le> unat (buf_addr + of_nat j * period_len)))"
proof -
  note f = prep_fields [OF built]
  from f have fr: "frames d = buf_len div period_len" and nz: "period_len \<noteq> 0" by simp_all
  from nz have pos: "0 < unat period_len" by (simp add: unat_gt_0)
  have d2m: "dst (control_block_base d ! i) = buf_addr + of_nat i * period_len
               \<and> src (control_block_base d ! i) = src_addr (cfg c)
               \<and> info (control_block_base d ! i) AND BCM2708_DMA_D_INC k = BCM2708_DMA_D_INC k
               \<and> info (control_block_base d ! i) AND BCM2708_DMA_INT_EN k
                   = BCM2708_DMA_INT_EN k"
    if "direction' = DMA_DEV_TO_MEM" "i < unat (frames d)" for i
    using that(1)
    by (simp add: prep_nth [OF built that(2)] cb_info_inc cb_info_int_en dev_addr_of_def)
  have m2d: "src (control_block_base d ! i) = buf_addr + of_nat i * period_len
               \<and> dst (control_block_base d ! i) = dst_addr (cfg c)
               \<and> info (control_block_base d ! i) AND BCM2708_DMA_S_INC k = BCM2708_DMA_S_INC k
               \<and> info (control_block_base d ! i) AND BCM2708_DMA_INT_EN k
                   = BCM2708_DMA_INT_EN k"
    if "direction' = DMA_MEM_TO_DEV" "i < unat (frames d)" for i
    using that(1)
    by (simp add: prep_nth [OF built that(2)] cb_info_inc cb_info_int_en dev_addr_of_def)
  have ad: "unat (buf_addr + of_nat i * period_len) = unat buf_addr + i * unat period_len"
    if "unat buf_addr + unat buf_len \<le> 2 ^ 32" "i < unat (frames d)" for i
    using that by (simp add: fr frame_addr_unat)
  have inc: "buf_addr + of_nat i * period_len < buf_addr + of_nat j * period_len
             \<and> unat (buf_addr + of_nat i * period_len) + unat period_len
                 \<le> unat (buf_addr + of_nat j * period_len)"
    if nw: "unat buf_addr + unat buf_len \<le> 2 ^ 32" and ij: "i < j" "j < unat (frames d)" for i j
  proof -
    from ij have i: "i < unat (frames d)" by simp
    from ij(1) have "Suc i * unat period_len \<le> j * unat period_len"
      by (intro mult_le_mono1) simp
    then have "unat buf_addr + i * unat period_len + unat period_len
               \<le> unat buf_addr + j * unat period_len" by simp
    with pos ij(1) show ?thesis
      by (simp add: word_less_nat_alt ad [OF nw i] ad [OF nw ij(2)])
  qed
  from d2m m2d ad inc show ?thesis by blast
qed

theorem prep_dma_cyclic_addresses_witness:
  "bcm2708_dma_prep_dma_cyclic sample_mach_dma sample_allocator sample_chan
       0x1000 4096 1024 DMA_DEV_TO_MEM
     = (Inr sample_desc, [Kzalloc True, DmaZallocCoherent 128 (Some 0x5000)])
   \<and> unat (0x1000 :: u32) + unat (4096 :: u32) \<le> 2 ^ 32
   \<and> dst (control_block_base sample_desc ! 2) = 0x1000 + of_nat 2 * 1024
   \<and> src (control_block_base sample_desc ! 2) = src_addr (cfg sample_chan)
   \<and> info (control_block_base sample_desc ! 2) AND BCM2708_DMA_D_INC sample_mach_dma
       = BCM2708_DMA_D_INC sample_mach_dma
   \<and> info (control_block_base sample_desc ! 2) AND BCM2708_DMA_INT_EN sample_mach_dma
       = BCM2708_DMA_INT_EN sample_mach_dma
   \<and> (0x1000 :: u32) + of_nat 2 * 1024 < 0x1000 + of_nat 3 * 1024
   \<and> unat ((0x1000 :: u32) + of_nat 2 * 1024) + unat (1024 :: u32)
       \<le> unat ((0x1000 :: u32) + of_nat 3 * 1024)"
proof -
  have built:
    "bcm2708_dma_prep_dma_cyclic sample_mach_dma sample_allocator sample_chan
       0x1000 4096 1024 DMA_DEV_TO_MEM
     = (Inr sample_desc, [Kzalloc True, DmaZallocCoherent 128 (Some 0x5000)])"
    by code_simp
  have nowrap: "unat (0x1000 :: u32) + unat (4096 :: u32) \<le> 2 ^ 32" by simp
  have lt: "2 < unat (frames sample_desc)" "(2::nat) < 3 \<and> 3 < unat (frames sample_desc)"
    by (simp_all add: sample_desc_def)
  from prep_dma_cyclic_addresses [OF built] nowrap lt built
  show ?thesis by blast
qed

text \<open>
  Without that condition the addresses are not increasing: for a buffer of 512 bytes at
  \<open>0xFFFFFF00\<close> in periods of 256 bytes the second destination wraps around to 0.
\<close>

theorem prep_dma_cyclic_addresses_counterexample:
  "bcm2708_dma_prep_dma_cyclic sample_mach_dma sample_allocator sample_chan
       0xFFFFFF00 0x200 0x100 DMA_DEV_TO_MEM
     = (Inr wrapped_desc, [Kzalloc True, DmaZallocCoherent 64 (Some 0x5000)])
   \<and> frames wrapped_desc = 2
   \<and> dst (control_block_base wrapped_desc ! 0) = 0xFFFFFF00
   \<and> dst (control_block_base wrapped_desc ! 1) = 0
   \<and> \<not> dst (control_block_base wrapped_desc ! 0) < dst (control_block_base wrapped_desc ! 1)"
  by code_simp

subsection \<open>The transfer queue and the interrupt handler\<close>

text \<open>A channel with an active descriptor has its \<open>cyclic\<close> flag set.\<close>

lemma reachable_running_cyclic: "reachable c \<Longrightarrow> desc c \<noteq> None \<Longrightarrow> cyclic c"
proof (induction rule: reachable.induct)
  case reachable_init
  then show ?case by (simp add: bcm2708_dma_chan_init_def)
next
  case (reachable_slave_config c cfg' r c')
  then show ?case by (auto simp: bcm2708_dma_slave_config_def split: if_splits)
next
  case (reachable_submit c k a buf_addr buf_len period_len direction' d ev cookie' c')
  then show ?case by (auto simp: vchan_tx_submit_def Let_def)
next
  case (reachable_issue_pending c c' ev)
  then show ?case
    by (auto simp: bcm2708_dma_issue_pending_def bcm2708_dma_start_desc_def Let_def
        split: if_splits option.splits)
next
  case (reachable_callback c k c' ev)
  then show ?case by (auto simp: bcm2708_dma_callback_def)
next
  case (reachable_terminate_all c k cs r c' ev)
  then show ?case
    by (auto simp: bcm2708_dma_terminate_all_def vchan_get_all_descriptors_def Let_def
        split: if_splits prod.splits)
qed

lemma reachable_running_chan: "reachable running_chan"
proof -
  have 1: "reachable bcm2708_dma_chan_init" by (rule reachable_init)
  have "bcm2708_dma_slave_config bcm2708_dma_chan_init (cfg sample_chan) = (0, sample_chan)"
    by (simp add: bcm2708_dma_slave_config_def sample_chan_def is_slave_direction_def)
  with 1 have 2: "reachable sample_chan" by (rule reachable_slave_config)
  have p: "bcm2708_dma_prep_dma_cyclic sample_mach_dma sample_allocator sample_chan
       0x1000 4096 1024 DMA_DEV_TO_MEM
     = (Inr sample_desc, [Kzalloc True, DmaZallocCoherent 128 (Some 0x5000)])"
    by code_simp
  have s: "vchan_tx_submit sample_chan sample_desc = (1, queued_chan)"
    by (simp add: vchan_tx_submit_def queued_chan_def sample_chan_def
          bcm2708_dma_chan_init_def)
  from 2 p s have 3: "reachable queued_chan" by (rule reachable_submit)
  have "bcm2708_dma_issue_pending queued_chan
        = (running_chan, [BcmDmaStart (control_block_base_phys (sample_desc\<lparr>cookie := 1\<rparr>))])"
    by (simp add: bcm2708_dma_issue_pending_def bcm2708_dma_start_desc_def
          vchan_issue_pending_def vchan_next_desc_def queued_chan_def running_chan_def
          sample_chan_def bcm2708_dma_chan_init_def)
  with 3 show ?thesis by (rule reachable_issue_pending)
qed

text \<open>
  Claim C5. On a channel without an active descriptor and with a non-empty queue,
  \<open>bcm2708_dma_issue_pending\<close> makes the head of the queue the active descriptor and starts
  the hardware once, with the physical address of that descriptor's first control block.
  On a channel with an active descriptor it starts nothing and leaves the queue and the
  active descriptor alone; all it does is to set the flag \<open>cyclic\<close>, which is already set in
  every reachable state with an active descriptor, so there the call changes nothing.
\<close>

theorem issue_pending_starts_idle_channel_once:
  "(desc c = None \<and> vc c = d # q \<longrightarrow>
      bcm2708_dma_issue_pending c
        = (c\<lparr>vc := q, cyclic := True, desc := Some d\<rparr>,
           [BcmDmaStart (control_block_base_phys d)]))
   \<and> (desc c \<noteq> None \<longrightarrow> bcm2708_dma_issue_pending c = (c\<lparr>cyclic := True\<rparr>, []))
   \<and> (reachable c \<and> desc c \<noteq> None \<longrightarrow> bcm2708_dma_issue_pending c = (c, []))"
proof -
  have "c\<lparr>cyclic := True\<rparr> = c" if "reachable c" "desc c \<noteq> None"
    using reachable_running_cyclic [OF that] by simp
  then show ?thesis
    by (auto simp: bcm2708_dma_issue_pending_def bcm2708_dma_start_desc_def
          vchan_issue_pending_def vchan_next_desc_def Let_def)
qed

theorem issue_pending_starts_idle_channel_once_witness:
  "bcm2708_dma_issue_pending queued_chan
     = (queued_chan\<lparr>vc := [], cyclic := True, desc := Some (sample_desc\<lparr>cookie := 1\<rparr>)\<rparr>,
        [BcmDmaStart (control_block_base_phys (sample_desc\<lparr>cookie := 1\<rparr>))])
   \<and> bcm2708_dma_issue_pending running_chan = (running_chan, [])"
proof -
  have a: "desc queued_chan = None \<and> vc queued_chan = [sample_desc\<lparr>cookie := 1\<rparr>]"
    by (simp add: queued_chan_def sample_chan_def bcm2708_dma_chan_init_def)
  have b: "reachable running_chan \<and> desc running_chan \<noteq> None"
    by (simp add: reachable_running_chan) (simp add: running_chan_def)
  from issue_pending_starts_idle_channel_once
         [where c = queued_chan and d = "sample_desc\<lparr>cookie := 1\<rparr>" and q = "[]"]
       issue_pending_starts_idle_channel_once
         [where c = running_chan and d = sample_desc and q = "[]"]
       a b
  show ?thesis by blast
qed

text \<open>
  Claim C6 does not hold. Without an active descriptor the handler does not notify and
  leaves the channel as it is, but after the acknowledge it still writes
  \<open>BCM2708_DMA_ACTIVE\<close> to the control-and-status register: the write that keeps the engine
  running is not guarded by the test for a descriptor.
\<close>

theorem callback_without_descriptor_rearms:
  "bcm2708_dma_callback k (c\<lparr>desc := None\<rparr>)
     = (c\<lparr>desc := None\<rparr>,
        [Writel (BCM2708_DMA_INT k) BCM2708_DMA_CS, Dsb,
         Writel (BCM2708_DMA_ACTIVE k) BCM2708_DMA_CS])"
  by (simp add: bcm2708_dma_callback_def)

subsection \<open>Termination\<close>

text \<open>The run bit never clears: the loop uses up the whole count.\<close>

lemma wait_for_stopping_never:
  "(\<And>i. n \<le> i \<Longrightarrow> i < n + t \<Longrightarrow> cs i AND BCM2708_DMA_ACTIVE k \<noteq> 0) \<Longrightarrow>
   wait_for_stopping k cs (int t) n ev
   = (0, ev @ concat (replicate t [Readl BCM2708_DMA_CS, CpuRelax]))"
proof (induction t arbitrary: n ev)
  case 0
  then show ?case by (simp add: wait_for_stopping.simps)
next
  case (Suc t)
  from Suc.prems [of n] have a: "cs n AND BCM2708_DMA_ACTIVE k \<noteq> 0" by simp
  have "wait_for_stopping k cs (int t) (n + 1) (ev @ [Readl BCM2708_DMA_CS, CpuRelax])
        = (0, (ev @ [Readl BCM2708_DMA_CS, CpuRelax])
              @ concat (replicate t [Readl BCM2708_DMA_CS, CpuRelax]))"
    by (rule Suc.IH) (simp add: Suc.prems)
  with a show ?case
    by (subst wait_for_stopping.simps) simp
qed

text \<open>The run bit is clear at the poll number \<open>m\<close>, for the first time.\<close>

lemma wait_for_stopping_clears:
  "m < t \<Longrightarrow> cs (n + m) AND BCM2708_DMA_ACTIVE k = 0 \<Longrightarrow>
   (\<And>i. i < m \<Longrightarrow> cs (n + i) AND BCM2708_DMA_ACTIVE k \<noteq> 0) \<Longrightarrow>
   wait_for_stopping k cs (int t) n ev
   = (int t - int m - 1,
      ev @ concat (replicate m [Readl BCM2708_DMA_CS, CpuRelax]) @ [Readl BCM2708_DMA_CS])"
proof (induction m arbitrary: n ev t)
  case 0
  then show ?case by (subst wait_for_stopping.simps) simp
next
  case (Suc m)
  from Suc.prems(1) obtain t' where t: "t = Suc t'" and m: "m < t'"
    by (cases t) simp_all
  from Suc.prems(3) [of 0] have a: "cs n AND BCM2708_DMA_ACTIVE k \<noteq> 0" by simp
  have "wait_for_stopping k cs (int t') (n + 1) (ev @ [Readl BCM2708_DMA_CS, CpuRelax])
        = (int t' - int m - 1,
           (ev @ [Readl BCM2708_DMA_CS, CpuRelax])
           @ concat (replicate m [Readl BCM2708_DMA_CS, CpuRelax]) @ [Readl BCM2708_DMA_CS])"
  proof (rule Suc.IH [OF m])
    from Suc.prems(2) show "cs (n + 1 + m) AND BCM2708_DMA_ACTIVE k = 0" by simp
    fix i assume "i < m"
    with Suc.prems(3) [of "Suc i"] show "cs (n + 1 + i) AND BCM2708_DMA_ACTIVE k \<noteq> 0"
      by simp
  qed
  with a t show ?case
    by (subst wait_for_stopping.simps) simp
qed

lemma wait_for_stopping_polls:
  "length (filter is_poll (snd (wait_for_stopping k cs timeout n ev)))
   \<le> length (filter is_poll ev) + nat timeout"
proof (induction k cs timeout n ev rule: wait_for_stopping.induct)
  case (1 k cs timeout n ev)
  show ?case
  proof (cases "timeout > 0")
    case False
    then show ?thesis by (subst wait_for_stopping.simps) simp
  next
    case True
    show ?thesis
    proof (cases "cs n AND BCM2708_DMA_ACTIVE k = 0")
      case z: True
      with True show ?thesis
        by (subst wait_for_stopping.simps) simp
    next
      case nz: False
      from "1.IH" [OF True nz] True
      have "length (filter is_poll (snd (wait_for_stopping k cs (timeout - 1) (n + 1)
                                          (ev @ [Readl BCM2708_DMA_CS, CpuRelax]))))
            \<le> length (filter is_poll ev) + nat timeout"
        by (simp add: nat_diff_distrib)
      with True nz show ?thesis
        by (subst wait_for_stopping.simps) simp
    qed
  qed
qed

lemma wait_for_stopping_frees:
  "filter is_free (snd (wait_for_stopping k cs timeout n ev)) = filter is_free ev"
proof (induction k cs timeout n ev rule: wait_for_stopping.induct)
  case (1 k cs timeout n ev)
  show ?case
  proof (cases "timeout > 0 \<and> cs n AND BCM2708_DMA_ACTIVE k \<noteq> 0")
    case True
    with "1.IH" show ?thesis
      by (subst wait_for_stopping.simps) simp
  next
    case False
    then show ?thesis
      by (subst wait_for_stopping.simps) auto
  qed
qed

lemma free_list_frees: "filter is_free (vchan_dma_desc_free_list q) = vchan_dma_desc_free_list q"
  by (induction q) (simp_all add: vchan_dma_desc_free_list_def bcm2708_dma_desc_free_def)

lemma free_list_polls: "filter is_poll (vchan_dma_desc_free_list q) = []"
  by (induction q) (simp_all add: vchan_dma_desc_free_list_def bcm2708_dma_desc_free_def)

text \<open>The parts of the result of \<open>bcm2708_dma_terminate_all\<close>.\<close>

lemma terminate_all_result:
  "fst (bcm2708_dma_terminate_all k cs c) = 0
   \<and> fst (snd (bcm2708_dma_terminate_all k cs c)) = c\<lparr>node := False, desc := None, vc := []\<rparr>"
  by (cases "desc c")
     (simp_all add: bcm2708_dma_terminate_all_def vchan_get_all_descriptors_def Let_def
        split: prod.splits)

lemma terminate_all_trace:
  "snd (snd (bcm2708_dma_terminate_all k cs c))
   = (if desc c \<noteq> None then
        (let (timeout, ev) = wait_for_stopping k cs 10000 0 [BcmDmaAbort]
         in if timeout \<le> 0 then ev @ [DevErr ''DMA transfer could not be terminated'']
            else ev)
      else [])
     @ vchan_dma_desc_free_list (vc c)"
  by (cases "desc c")
     (simp_all add: bcm2708_dma_terminate_all_def vchan_get_all_descriptors_def Let_def
        split: prod.splits)

lemma terminate_all_frees:
  "filter is_free (snd (snd (bcm2708_dma_terminate_all k cs c)))
   = vchan_dma_desc_free_list (vc c)"
proof -
  obtain t e where w: "wait_for_stopping k cs 10000 0 [BcmDmaAbort] = (t, e)"
    by (cases "wait_for_stopping k cs 10000 0 [BcmDmaAbort]")
  have "filter is_free (snd (wait_for_stopping k cs 10000 0 [BcmDmaAbort])) = []"
    by (simp add: wait_for_stopping_frees)
  with w have "filter is_free e = []" by simp
  with w show ?thesis
    by (simp add: terminate_all_trace free_list_frees)
qed

lemma terminate_all_polls:
  "length (filter is_poll (snd (snd (bcm2708_dma_terminate_all k cs c)))) \<le> 10000"
proof -
  have "length (filter is_poll (snd (wait_for_stopping k cs 10000 0 [BcmDmaAbort])))
        \<le> length (filter is_poll [BcmDmaAbort]) + nat 10000"
    by (rule wait_for_stopping_polls)
  moreover obtain t e where w: "wait_for_stopping k cs 10000 0 [BcmDmaAbort] = (t, e)"
    by (cases "wait_for_stopping k cs 10000 0 [BcmDmaAbort]")
  ultimately have "length (filter is_poll e) \<le> 10000" by simp
  with w show ?thesis
    by (simp add: terminate_all_trace free_list_polls)
qed

text \<open>
  Every run of the loop: \<open>m\<close> polls that see the run bit set, each followed by a
  \<open>cpu_relax\<close>, and, unless the count is used up, one poll that sees it clear.
\<close>

lemma wait_for_stopping_shape:
  "\<exists>m \<le> t. wait_for_stopping k cs (int t) n ev
            = (int t - int m - (if m = t then 0 else 1),
               ev @ concat (replicate m [Readl BCM2708_DMA_CS, CpuRelax])
               @ (if m = t then [] else [Readl BCM2708_DMA_CS]))"
proof (cases "\<exists>i < t. cs (n + i) AND BCM2708_DMA_ACTIVE k = 0")
  case True
  define m where "m = (LEAST i. i < t \<and> cs (n + i) AND BCM2708_DMA_ACTIVE k = 0)"
  from True have m: "m < t \<and> cs (n + m) AND BCM2708_DMA_ACTIVE k = 0"
    unfolding m_def by (rule LeastI_ex)
  have least: "cs (n + i) AND BCM2708_DMA_ACTIVE k \<noteq> 0" if "i < m" for i
  proof
    assume "cs (n + i) AND BCM2708_DMA_ACTIVE k = 0"
    with that m have "i < t \<and> cs (n + i) AND BCM2708_DMA_ACTIVE k = 0" by simp
    then have "m \<le> i" unfolding m_def by (rule Least_le)
    with that show False by simp
  qed
  from m have "wait_for_stopping k cs (int t) n ev
        = (int t - int m - 1,
           ev @ concat (replicate m [Readl BCM2708_DMA_CS, CpuRelax]) @ [Readl BCM2708_DMA_CS])"
    by (intro wait_for_stopping_clears least) simp_all
  with m show ?thesis by (intro exI [of _ m]) simp
next
  case False
  have "cs i AND BCM2708_DMA_ACTIVE k \<noteq> 0" if "n \<le> i" "i < n + t" for i
  proof -
    from that have "i - n < t" "n + (i - n) = i" by simp_all
    with False show ?thesis by metis
  qed
  then have "wait_for_stopping k cs (int t) n ev
        = (0, ev @ concat (replicate t [Readl BCM2708_DMA_CS, CpuRelax]))"
    by (rule wait_for_stopping_never)
  then show ?thesis by (intro exI [of _ t]) simp
qed

lemma terminate_all_shape:
  assumes "desc c \<noteq> None"
  shows "\<exists>m \<le> 10000.
           snd (snd (bcm2708_dma_terminate_all k cs c))
           = [BcmDmaAbort] @ concat (replicate m [Readl BCM2708_DMA_CS, CpuRelax])
             @ (if m = 10000 then [] else [Readl BCM2708_DMA_CS])
             @ (if 9999 \<le> m then [DevErr ''DMA transfer could not be terminated''] else [])
             @ vchan_dma_desc_free_list (vc c)"
proof -
  from wait_for_stopping_shape [of 10000 k cs 0 "[BcmDmaAbort]"]
  obtain m where m: "m \<le> 10000"
    and w: "wait_for_stopping k cs 10000 0 [BcmDmaAbort]
            = (10000 - int m - (if m = 10000 then 0 else 1),
               [BcmDmaAbort] @ concat (replicate m [Readl BCM2708_DMA_CS, CpuRelax])
               @ (if m = 10000 then [] else [Readl BCM2708_DMA_CS]))"
    by auto
  have "snd (snd (bcm2708_dma_terminate_all k cs c))
           = [BcmDmaAbort] @ concat (replicate m [Readl BCM2708_DMA_CS, CpuRelax])
             @ (if m = 10000 then [] else [Readl BCM2708_DMA_CS])
             @ (if 9999 \<le> m then [DevErr ''DMA transfer could not be terminated''] else [])
             @ vchan_dma_desc_free_list (vc c)"
    using assms m by (simp only: terminate_all_trace w) auto
  with m show ?thesis by blast
qed

text \<open>
  Claim C9. \<open>bcm2708_dma_terminate_all\<close> reads the control-and-status register at most 10000
  times, whatever the hardware answers, and always returns 0 with no active descriptor and
  an empty queue. On a channel with an active descriptor its trace is the abort, then polls
  that see the run bit set, each followed by a \<open>cpu_relax\<close>, then at most one poll that sees
  it clear, the error message if the count of 10000 is used up, and the release of the
  queued descriptors. If the run bit is set at each of the 10000 reads, the call polls 10000
  times, logs the error, frees the queued descriptors and returns 0.
\<close>

theorem terminate_all_wait_is_bounded:
  "length (filter is_poll (snd (snd (bcm2708_dma_terminate_all k cs c)))) \<le> 10000
   \<and> fst (bcm2708_dma_terminate_all k cs c) = 0
   \<and> desc (fst (snd (bcm2708_dma_terminate_all k cs c))) = None
   \<and> vc (fst (snd (bcm2708_dma_terminate_all k cs c))) = []
   \<and> (desc c \<noteq> None \<longrightarrow>
        (\<exists>m \<le> 10000.
           snd (snd (bcm2708_dma_terminate_all k cs c))
           = [BcmDmaAbort] @ concat (replicate m [Readl BCM2708_DMA_CS, CpuRelax])
             @ (if m = 10000 then [] else [Readl BCM2708_DMA_CS])
             @ (if 9999 \<le> m then [DevErr ''DMA transfer could not be terminated''] else [])
             @ vchan_dma_desc_free_list (vc c)))
   \<and> (desc c \<noteq> None \<and> (\<forall>i < 10000. cs i AND BCM2708_DMA_ACTIVE k \<noteq> 0) \<longrightarrow>
        bcm2708_dma_terminate_all k cs c
        = (0, c\<lparr>node := False, desc := None, vc := []\<rparr>,
           [BcmDmaAbort] @ concat (replicate 10000 [Readl BCM2708_DMA_CS, CpuRelax])
           @ [DevErr ''DMA transfer could not be terminated'']
           @ vchan_dma_desc_free_list (vc c)))"
proof -
  have never: "bcm2708_dma_terminate_all k cs c
        = (0, c\<lparr>node := False, desc := None, vc := []\<rparr>,
           [BcmDmaAbort] @ concat (replicate 10000 [Readl BCM2708_DMA_CS, CpuRelax])
           @ [DevErr ''DMA transfer could not be terminated'']
           @ vchan_dma_desc_free_list (vc c))"
    if a: "desc c \<noteq> None" and n: "\<forall>i < 10000. cs i AND BCM2708_DMA_ACTIVE k \<noteq> 0"
  proof -
    have "wait_for_stopping k cs (int 10000) 0 [BcmDmaAbort]
          = (0, [BcmDmaAbort] @ concat (replicate 10000 [Readl BCM2708_DMA_CS, CpuRelax]))"
      by (rule wait_for_stopping_never) (use n in simp)
    then have w: "wait_for_stopping k cs 10000 0 [BcmDmaAbort]
          = (0, [BcmDmaAbort] @ concat (replicate 10000 [Readl BCM2708_DMA_CS, CpuRelax]))"
      by simp
    have "snd (snd (bcm2708_dma_terminate_all k cs c))
          = [BcmDmaAbort] @ concat (replicate 10000 [Readl BCM2708_DMA_CS, CpuRelax])
            @ [DevErr ''DMA transfer could not be terminated'']
            @ vchan_dma_desc_free_list (vc c)"
      using a by (simp only: terminate_all_trace w) simp
    with terminate_all_result [of k cs c] show ?thesis
      by (simp add: prod_eq_iff)
  qed
  from terminate_all_result [of k cs c] terminate_all_polls [of k cs c] never
    terminate_all_shape [of c k cs]
  show ?thesis by simp
qed

theorem terminate_all_wait_is_bounded_witness:
  "bcm2708_dma_terminate_all sample_mach_dma (\<lambda>n. 1) running_chan
     = (0, running_chan\<lparr>node := False, desc := None, vc := []\<rparr>,
        [BcmDmaAbort] @ concat (replicate 10000 [Readl BCM2708_DMA_CS, CpuRelax])
        @ [DevErr ''DMA transfer could not be terminated'']
        @ vchan_dma_desc_free_list (vc running_chan))"
proof -
  have a: "desc running_chan \<noteq> None" by (simp add: running_chan_def)
  have n: "\<forall>i < 10000. (\<lambda>n. 1 :: u32) i AND BCM2708_DMA_ACTIVE sample_mach_dma \<noteq> 0"
    by (simp add: sample_mach_dma_def)
  from terminate_all_wait_is_bounded
         [where k = sample_mach_dma and cs = "\<lambda>n. 1" and c = running_chan] a n
  show ?thesis by blast
qed

text \<open>
  Claim C8 does not hold for the memory of the active descriptor. On the running sample
  channel \<open>bcm2708_dma_terminate_all\<close> clears the active descriptor, aborts the hardware and
  returns 0, and a second call finds nothing to do; but the trace of the first call holds
  no release at all: the descriptor that was active is on no list any more, and its
  memory is never handed to \<open>bcm2708_dma_desc_free\<close> (\<open>terminate_all_frees\<close> above: the
  call releases the queued descriptors and nothing else).
\<close>

theorem terminate_all_leaks_active_descriptor:
  "desc running_chan = Some (sample_desc\<lparr>cookie := 1\<rparr>)
   \<and> vc running_chan = []
   \<and> bcm2708_dma_terminate_all sample_mach_dma (\<lambda>n. 0) running_chan
       = (0, idle_chan, [BcmDmaAbort, Readl BCM2708_DMA_CS])
   \<and> filter is_free [BcmDmaAbort, Readl BCM2708_DMA_CS] = []
   \<and> desc idle_chan = None \<and> vc idle_chan = []
   \<and> bcm2708_dma_terminate_all sample_mach_dma (\<lambda>n. 0) idle_chan = (0, idle_chan, [])"
  by code_simp

subsection \<open>The residue\<close>

lemma desc_size_pos_loop_walk:
  "length (control_block_base d) = unat (frames d) \<Longrightarrow>
   desc_size_pos_loop d addr i size'
   = Some (size_pos_walk d addr (drop (unat i) (control_block_base d)) size')"
proof (induction d addr i size' rule: desc_size_pos_loop.induct)
  case (1 d addr i size')
  show ?case
  proof (cases "i < frames d")
    case False
    then have "unat (frames d) \<le> unat i" by (simp add: word_less_nat_alt)
    with False "1.prems" show ?thesis
      by (subst desc_size_pos_loop.simps) simp
  next
    case True
    then have lt: "unat i < length (control_block_base d)"
      using "1.prems" by (simp add: word_less_nat_alt)
    then have nn: "\<not> \<not> unat i < length (control_block_base d)" by simp
    from True have suc: "unat (i + 1) = Suc (unat i)" by unat_arith
    have dr: "drop (unat i) (control_block_base d)
              = control_block_base d ! unat i # drop (Suc (unat i)) (control_block_base d)"
      using lt by (rule Cons_nth_drop_Suc [symmetric])
    from "1.IH" [OF True nn refl refl refl "1.prems"] True lt show ?thesis
      by (subst desc_size_pos_loop.simps)
         (simp add: dr suc Let_def size_pos_test_def step_remainder_def step_addr_def)
  qed
qed

lemma desc_size_pos_walk:
  "length (control_block_base d) = unat (frames d) \<Longrightarrow>
   bcm2708_dma_desc_size_pos d addr = Some (size_pos_walk d addr (control_block_base d) 0)"
  by (simp add: bcm2708_dma_desc_size_pos_def desc_size_pos_loop_walk)

text \<open>Once the position is found, the lengths of the remaining blocks are added.\<close>

lemma size_pos_walk_found:
  "size' \<noteq> 0 \<Longrightarrow> unat size' + (\<Sum>cb \<leftarrow> cbs. unat (length_cb cb)) < 2 ^ 32 \<Longrightarrow>
   size_pos_walk d addr cbs size' = size' + sum_list (map length_cb cbs)
   \<and> unat (size' + sum_list (map length_cb cbs))
       = unat size' + (\<Sum>cb \<leftarrow> cbs. unat (length_cb cb))"
proof (induction cbs arbitrary: size')
  case Nil
  then show ?case by simp
next
  case (Cons cb cbs)
  from Cons.prems(2) have "unat size' + unat (length_cb cb) < 2 ^ LENGTH(32)" by simp
  then have u: "unat (size' + length_cb cb) = unat size' + unat (length_cb cb)"
    by (rule unat_add_lem [THEN iffD1])
  from Cons.prems(1) have "0 < unat size'" by (simp add: unat_gt_0)
  with u have nz: "size' + length_cb cb \<noteq> 0" by (metis add_gr_0 unat_gt_0)
  from Cons.prems(2) u
  have "unat (size' + length_cb cb) + (\<Sum>cb \<leftarrow> cbs. unat (length_cb cb)) < 2 ^ 32"
    by simp
  from Cons.IH [OF nz this] Cons.prems(1) u show ?case
    by (simp add: add.assoc)
qed

lemma size_pos_walk_outside:
  "(\<And>cb. cb \<in> set cbs \<Longrightarrow> \<not> size_pos_test d addr cb) \<Longrightarrow>
   size_pos_walk d addr cbs 0 = 0"
  by (induction cbs) simp_all

text \<open>Inside a step the remainder is positive and at most the length of the step.\<close>

lemma step_remainder_bounds:
  assumes "size_pos_test d addr cb"
  shows "step_remainder d addr cb \<noteq> 0"
    and "unat (step_remainder d addr cb) \<le> unat (length_cb cb)"
    and "unat (addr - step_addr d cb) < unat (length_cb cb)"
proof -
  let ?a = "step_addr d cb" and ?l = "length_cb cb"
  from assms have le: "?a \<le> addr" and lt: "addr < ?a + ?l"
    by (simp_all add: size_pos_test_def)
  from le lt have "?a \<le> ?a + ?l" by simp
  then have nw: "unat (?a + ?l) = unat ?a + unat ?l"
    by (simp add: no_plus_overflow_unat_size unat_add_lem [THEN iffD1] word_size)
  from lt have "addr \<le> ?a + ?l" by simp
  then have r: "unat (?a + ?l - addr) = unat ?a + unat ?l - unat addr"
    by (simp add: unat_sub nw)
  from lt have l2: "unat addr < unat ?a + unat ?l"
    by (simp add: word_less_nat_alt nw)
  from le have l1: "unat ?a \<le> unat addr" by (simp add: word_le_nat_alt)
  from r l1 l2 show "unat (step_remainder d addr cb) \<le> unat ?l"
    by (simp add: step_remainder_def)
  from r l2 have "0 < unat (step_remainder d addr cb)" by (simp add: step_remainder_def)
  then show "step_remainder d addr cb \<noteq> 0" by (simp add: unat_gt_0)
  from le have "unat (addr - ?a) = unat addr - unat ?a" by (rule unat_sub)
  with l1 l2 show "unat (addr - ?a) < unat ?l" by simp
qed

lemma size_pos_walk_first:
  assumes out: "\<And>cb. cb \<in> set pre \<Longrightarrow> \<not> size_pos_test d addr cb"
    and inr: "size_pos_test d addr cb"
    and nw: "unat (length_cb cb) + (\<Sum>cb \<leftarrow> post. unat (length_cb cb)) < 2 ^ 32"
  shows "size_pos_walk d addr (pre @ cb # post) 0
         = step_remainder d addr cb + sum_list (map length_cb post)
       \<and> unat (step_remainder d addr cb + sum_list (map length_cb post))
           = unat (step_remainder d addr cb) + (\<Sum>cb \<leftarrow> post. unat (length_cb cb))"
  using out
proof (induction pre)
  case Nil
  note b = step_remainder_bounds [OF inr]
  from b(2) nw
  have "unat (step_remainder d addr cb) + (\<Sum>cb \<leftarrow> post. unat (length_cb cb)) < 2 ^ 32"
    by simp
  from size_pos_walk_found [OF b(1) this] inr show ?case by simp
next
  case (Cons x pre)
  then show ?case by simp
qed

text \<open>
  The test of the code and the range of the claim. A position that passes the test lies in
  the range. A position in the range passes the test if the step ends below the top of the
  address space, and then the value of line 200 is the number of bytes from the position
  to the end of the step. If the step ends at the top of the address space or beyond, the
  sum \<open>dma + this_size\<close> wraps around and no position of the range passes the test.
\<close>

lemma size_pos_test_in_step_range:
  assumes "size_pos_test d addr cb"
  shows "in_step_range d addr cb"
proof -
  from assms have le: "step_addr d cb \<le> addr" by (simp add: size_pos_test_def)
  from step_remainder_bounds(3) [OF assms] le show ?thesis
    by (simp add: in_step_range_def unat_sub word_le_nat_alt)
qed

lemma in_step_range_size_pos_test:
  assumes "unat (step_addr d cb) + unat (length_cb cb) < 2 ^ 32"
    and "in_step_range d addr cb"
  shows "size_pos_test d addr cb"
    and "unat (step_remainder d addr cb)
         = unat (step_addr d cb) + unat (length_cb cb) - unat addr"
proof -
  from assms(1) have "unat (step_addr d cb) + unat (length_cb cb) < 2 ^ LENGTH(32)" by simp
  then have nw: "unat (step_addr d cb + length_cb cb)
             = unat (step_addr d cb) + unat (length_cb cb)"
    by (rule unat_add_lem [THEN iffD1])
  with assms(2) show t: "size_pos_test d addr cb"
    by (simp add: in_step_range_def size_pos_test_def word_le_nat_alt word_less_nat_alt)
  then have "addr \<le> step_addr d cb + length_cb cb" by (auto simp: size_pos_test_def)
  then show "unat (step_remainder d addr cb)
         = unat (step_addr d cb) + unat (length_cb cb) - unat addr"
    by (simp add: step_remainder_def unat_sub nw)
qed

lemma wrapped_step_fails_test:
  assumes "2 ^ 32 \<le> unat (step_addr d cb) + unat (length_cb cb)"
  shows "\<not> size_pos_test d addr cb"
proof
  assume "size_pos_test d addr cb"
  then have "step_addr d cb \<le> step_addr d cb + length_cb cb"
    by (auto simp: size_pos_test_def)
  then have "unat (step_addr d cb) + unat (length_cb cb) < 2 ^ 32"
    by (simp add: no_plus_overflow_unat_size word_size)
  with assms show False by simp
qed

text \<open>No position lies in the ranges of two frames of one buffer.\<close>

lemma frame_ranges_disjoint:
  fixes buf_addr buf_len period_len addr :: u32
  assumes ij: "i < j" and j: "j < unat (buf_len div period_len)"
    and ri: "unat (addr - (buf_addr + of_nat i * period_len)) < unat period_len"
    and rj: "unat (addr - (buf_addr + of_nat j * period_len)) < unat period_len"
  shows False
proof -
  let ?P = "unat period_len"
  let ?ri = "addr - (buf_addr + of_nat i * period_len)"
  let ?rj = "addr - (buf_addr + of_nat j * period_len)"
  let ?w = "of_nat (j - i) * period_len :: u32"
  have bound: "unat buf_len < 2 ^ LENGTH(32)" by (rule unsigned_less)
  from frame_inside [OF j] have sj: "?P + j * ?P \<le> unat buf_len" by simp
  from ij have "(j - i) * ?P \<le> j * ?P" by (intro mult_le_mono1) simp
  with sj have d: "?P + (j - i) * ?P \<le> unat buf_len" by linarith
  from j have "j - i \<le> unat (buf_len div period_len)" by simp
  then have u: "unat (of_nat (j - i) :: u32) = j - i" by (rule le_unat_uoi)
  from d bound have "unat (of_nat (j - i) :: u32) * ?P < 2 ^ LENGTH(32)" by (simp add: u)
  then have uw: "unat ?w = (j - i) * ?P"
    by (simp only: unat_mult_lem [THEN iffD1] u)
  from rj d bound have "unat ?rj + unat ?w < 2 ^ LENGTH(32)" by (simp add: uw)
  then have s: "unat (?rj + ?w) = unat ?rj + unat ?w" by (rule unat_add_lem [THEN iffD1])
  from ij have "j = i + (j - i)" by simp
  then have "(of_nat j :: u32) = of_nat (i + (j - i))" by simp
  then have e: "(of_nat j :: u32) = of_nat i + of_nat (j - i)" by (simp only: of_nat_add)
  have eq: "?ri = ?rj + ?w" by (simp only: e) (simp add: algebra_simps)
  have "unat ?ri = unat (?rj + ?w)" by (simp only: eq)
  also have "\<dots> = unat ?rj + unat ?w" by (rule s)
  also have "\<dots> = unat ?rj + (j - i) * ?P" by (simp only: uw)
  finally have "unat ?ri = unat ?rj + (j - i) * ?P" .
  moreover from ij have "?P \<le> (j - i) * ?P" by (cases "j - i") simp_all
  ultimately show False using ri by linarith
qed

lemma size_pos_walk_cookie:
  "size_pos_walk (d\<lparr>cookie := ck\<rparr>) addr cbs size' = size_pos_walk d addr cbs size'"
  by (induction cbs arbitrary: size')
     (simp_all add: size_pos_test_def step_remainder_def step_addr_def)

lemma desc_size_pos_cookie:
  "length (control_block_base d) = unat (frames d) \<Longrightarrow>
   bcm2708_dma_desc_size_pos (d\<lparr>cookie := ck\<rparr>) addr = bcm2708_dma_desc_size_pos d addr"
  by (simp add: desc_size_pos_walk size_pos_walk_cookie)

text \<open>The status of the active descriptor: the register that is read for the position.\<close>

lemma tx_status_active:
  assumes "desc c = Some d" and "cookie d = cookie'" and "vchan_find_desc (vc c) cookie' = None"
    and "ret \<noteq> DMA_COMPLETE"
    and "dir d = DMA_MEM_TO_DEV \<or> dir d = DMA_DEV_TO_MEM"
  shows "bcm2708_dma_tx_status readl ret True c cookie'
         = map_option
             (\<lambda>residue. (ret, Some residue,
                [Readl (if dir d = DMA_MEM_TO_DEV then BCM2708_DMA_SOURCE_AD
                        else BCM2708_DMA_DEST_AD)]))
             (bcm2708_dma_desc_size_pos d
                (readl (if dir d = DMA_MEM_TO_DEV then BCM2708_DMA_SOURCE_AD
                        else BCM2708_DMA_DEST_AD)))"
  using assms by (auto simp: bcm2708_dma_tx_status_def)

text \<open>The control blocks of a descriptor that the builder returned.\<close>

lemma built_step:
  assumes "bcm2708_dma_prep_dma_cyclic k a c buf_addr buf_len period_len direction' = (Inr d, ev)"
    and "i < unat (frames d)"
  shows "step_addr d (control_block_base d ! i) = buf_addr + of_nat i * period_len"
    and "length_cb (control_block_base d ! i) = period_len"
  using prep_fields [OF assms(1)]
  by (auto simp: step_addr_def prep_nth [OF assms])

text \<open>
  A position is less than a period behind the address of at most one control block: the
  ranges of the blocks do not overlap, not even around the top of the address space.
\<close>

lemma built_offset_unique:
  assumes built:
      "bcm2708_dma_prep_dma_cyclic k a c buf_addr buf_len period_len direction' = (Inr d, ev)"
    and i: "i < unat (frames d)" and j: "j < unat (frames d)"
    and oi: "unat (addr - step_addr d (control_block_base d ! i)) < unat period_len"
    and oj: "unat (addr - step_addr d (control_block_base d ! j)) < unat period_len"
  shows "i = j"
proof (rule ccontr)
  from prep_fields [OF built] have fr: "frames d = buf_len div period_len" by simp
  note oi' = oi [unfolded built_step(1) [OF built i]]
  note oj' = oj [unfolded built_step(1) [OF built j]]
  assume "i \<noteq> j"
  then consider "i < j" | "j < i" by linarith
  then show False
  proof cases
    case 1
    from frame_ranges_disjoint [OF 1 _ oi' oj'] j fr show False by simp
  next
    case 2
    from frame_ranges_disjoint [OF 2 _ oj' oi'] i fr show False by simp
  qed
qed

lemma built_test_offset:
  assumes built:
      "bcm2708_dma_prep_dma_cyclic k a c buf_addr buf_len period_len direction' = (Inr d, ev)"
    and i: "i < unat (frames d)"
    and t: "size_pos_test d addr (control_block_base d ! i)"
  shows "unat (addr - step_addr d (control_block_base d ! i)) < unat period_len"
  using step_remainder_bounds(3) [OF t] by (simp add: built_step(2) [OF built i])

lemma built_range_offset:
  assumes built:
      "bcm2708_dma_prep_dma_cyclic k a c buf_addr buf_len period_len direction' = (Inr d, ev)"
    and i: "i < unat (frames d)"
    and r: "in_step_range d addr (control_block_base d ! i)"
  shows "unat (addr - step_addr d (control_block_base d ! i)) < unat period_len"
proof -
  from r have le: "step_addr d (control_block_base d ! i) \<le> addr"
    by (simp add: in_step_range_def word_le_nat_alt)
  then have "unat (addr - step_addr d (control_block_base d ! i))
             = unat addr - unat (step_addr d (control_block_base d ! i))"
    by (rule unat_sub)
  with r show ?thesis
    by (auto simp: in_step_range_def built_step(2) [OF built i])
qed

text \<open>The walk over a built descriptor, in terms of the test of the code.\<close>

lemma built_test_passes:
  assumes built:
      "bcm2708_dma_prep_dma_cyclic k a c buf_addr buf_len period_len direction' = (Inr d, ev)"
    and i: "i < unat (frames d)"
    and inr: "size_pos_test d addr (control_block_base d ! i)"
  shows "bcm2708_dma_desc_size_pos d addr
           = Some (step_remainder d addr (control_block_base d ! i)
                   + sum_list (map length_cb (drop (Suc i) (control_block_base d))))
         \<and> unat (step_remainder d addr (control_block_base d ! i)
                  + sum_list (map length_cb (drop (Suc i) (control_block_base d))))
             = unat (step_remainder d addr (control_block_base d ! i))
               + (\<Sum>cb \<leftarrow> drop (Suc i) (control_block_base d). unat (length_cb cb))"
proof -
  let ?cbs = "control_block_base d" and ?n = "unat (frames d)"
  note f = prep_fields [OF built]
  from f have len: "length ?cbs = ?n" and fr: "frames d = buf_len div period_len"
    by simp_all
  from i len have split: "?cbs = take i ?cbs @ ?cbs ! i # drop (Suc i) ?cbs"
    by (simp add: id_take_nth_drop)
  have out: "\<not> size_pos_test d addr cb" if "cb \<in> set (take i ?cbs)" for cb
  proof
    assume r: "size_pos_test d addr cb"
    from that obtain j where j: "j < i" "cb = ?cbs ! j"
      using i len by (auto simp: in_set_conv_nth)
    with i have jn: "j < ?n" by simp
    from r j have "size_pos_test d addr (?cbs ! j)" by simp
    from built_offset_unique [OF built jn i built_test_offset [OF built jn this]
           built_test_offset [OF built i inr]] j
    show False by simp
  qed
  have "(\<Sum>cb \<leftarrow> drop (Suc i) ?cbs. unat (length_cb cb))
        = length (drop (Suc i) ?cbs) * unat period_len"
    by (rule sum_list_const) (simp add: len built_step(2) [OF built])
  then have "unat (length_cb (?cbs ! i)) + (\<Sum>cb \<leftarrow> drop (Suc i) ?cbs. unat (length_cb cb))
        = (?n - i) * unat period_len"
    using i by (simp add: built_step(2) [OF built] len Suc_diff_Suc [symmetric]
                  del: Suc_diff_Suc)
  also have "\<dots> \<le> ?n * unat period_len" by (intro mult_le_mono1) simp
  also have "\<dots> \<le> unat buf_len" by (simp add: fr unat_div)
  also have "\<dots> < 2 ^ 32" using unsigned_less [of buf_len, where 'a = nat] by simp
  finally have nw: "unat (length_cb (?cbs ! i))
        + (\<Sum>cb \<leftarrow> drop (Suc i) ?cbs. unat (length_cb cb)) < 2 ^ 32" .
  from size_pos_walk_first [of "take i ?cbs" d addr "?cbs ! i" "drop (Suc i) ?cbs",
         OF out inr nw] split
  show ?thesis by (simp add: desc_size_pos_walk [OF len])
qed

lemma built_test_fails:
  assumes built:
      "bcm2708_dma_prep_dma_cyclic k a c buf_addr buf_len period_len direction' = (Inr d, ev)"
    and none: "\<And>i. i < unat (frames d) \<Longrightarrow> \<not> size_pos_test d addr (control_block_base d ! i)"
  shows "bcm2708_dma_desc_size_pos d addr = Some 0"
proof -
  from prep_fields [OF built]
  have len: "length (control_block_base d) = unat (frames d)" by simp
  have "\<not> size_pos_test d addr cb" if "cb \<in> set (control_block_base d)" for cb
    using that none len by (auto simp: in_set_conv_nth)
  then have "size_pos_walk d addr (control_block_base d) 0 = 0"
    by (rule size_pos_walk_outside)
  then show ?thesis by (simp add: desc_size_pos_walk [OF len])
qed

text \<open>
  A position in a step that ends at the top of the address space or beyond: the walk finds
  it in no block, and the residue is 0.
\<close>

lemma desc_size_pos_wrapped_step:
  assumes built:
      "bcm2708_dma_prep_dma_cyclic k a c buf_addr buf_len period_len direction' = (Inr d, ev)"
    and i: "i < unat (frames d)"
    and r: "in_step_range d addr (control_block_base d ! i)"
    and top: "2 ^ 32 \<le> unat (step_addr d (control_block_base d ! i))
                        + unat (length_cb (control_block_base d ! i))"
  shows "bcm2708_dma_desc_size_pos d addr = Some 0"
  using built
proof (rule built_test_fails)
  fix j assume j: "j < unat (frames d)"
  show "\<not> size_pos_test d addr (control_block_base d ! j)"
  proof
    assume t: "size_pos_test d addr (control_block_base d ! j)"
    from built_offset_unique [OF built j i built_test_offset [OF built j t]
           built_range_offset [OF built i r]]
    have "j = i" .
    with t wrapped_step_fails_test [OF top] show False by simp
  qed
qed

text \<open>
  Claim C7, as amended. For every descriptor the builder returns (and so for every active
  one, which differs from it in the cookie only) and every position: the walk goes once
  through the control blocks from the first one. If the position falls within the range
  of step \<open>i\<close>, from the step's address up to its address plus its length, and that step
  ends below the top of the 32-bit address space (address plus length less than \<open>2^32\<close>),
  the residue is the number of bytes from the position to the end of step \<open>i\<close> plus the
  lengths of the steps \<open>i + 1\<close> to \<open>frames - 1\<close>, a sum that does not wrap. If the position
  falls within no step's range, the residue is 0. The address of a step is its destination
  for device-to-memory and its source for memory-to-device, and \<open>bcm2708_dma_tx_status\<close>
  reads the position from the destination-address register and the source-address
  register respectively.
\<close>

theorem desc_size_pos_residue:
  assumes built:
      "bcm2708_dma_prep_dma_cyclic k a c buf_addr buf_len period_len direction' = (Inr d, ev)"
  shows "(\<forall>i < unat (frames d).
            in_step_range d addr (control_block_base d ! i)
            \<and> unat (step_addr d (control_block_base d ! i))
                + unat (length_cb (control_block_base d ! i)) < 2 ^ 32 \<longrightarrow>
            bcm2708_dma_desc_size_pos d addr
              = Some (step_remainder d addr (control_block_base d ! i)
                      + sum_list (map length_cb (drop (Suc i) (control_block_base d))))
            \<and> unat (step_remainder d addr (control_block_base d ! i)
                     + sum_list (map length_cb (drop (Suc i) (control_block_base d))))
                = unat (step_addr d (control_block_base d ! i))
                  + unat (length_cb (control_block_base d ! i)) - unat addr
                  + (\<Sum>cb \<leftarrow> drop (Suc i) (control_block_base d). unat (length_cb cb)))
       \<and> ((\<forall>i < unat (frames d). \<not> in_step_range d addr (control_block_base d ! i)) \<longrightarrow>
            bcm2708_dma_desc_size_pos d addr = Some 0)
       \<and> (\<forall>cb. step_addr d cb = (if direction' = DMA_DEV_TO_MEM then dst cb else src cb))
       \<and> (desc c' = Some (d\<lparr>cookie := ck\<rparr>) \<and> vchan_find_desc (vc c') ck = None
            \<and> ret \<noteq> DMA_COMPLETE \<longrightarrow>
            bcm2708_dma_tx_status readl ret True c' ck
            = map_option
                (\<lambda>residue. (ret, Some residue,
                   [Readl (if direction' = DMA_DEV_TO_MEM then BCM2708_DMA_DEST_AD
                           else BCM2708_DMA_SOURCE_AD)]))
                (bcm2708_dma_desc_size_pos d
                   (readl (if direction' = DMA_DEV_TO_MEM then BCM2708_DMA_DEST_AD
                           else BCM2708_DMA_SOURCE_AD))))"
proof -
  let ?cbs = "control_block_base d" and ?n = "unat (frames d)"
  note f = prep_fields [OF built]
  from f have len: "length ?cbs = ?n" and di: "dir d = direction'" by simp_all
  have found: "bcm2708_dma_desc_size_pos d addr
              = Some (step_remainder d addr (?cbs ! i)
                      + sum_list (map length_cb (drop (Suc i) ?cbs)))
            \<and> unat (step_remainder d addr (?cbs ! i)
                     + sum_list (map length_cb (drop (Suc i) ?cbs)))
                = unat (step_addr d (?cbs ! i)) + unat (length_cb (?cbs ! i)) - unat addr
                  + (\<Sum>cb \<leftarrow> drop (Suc i) ?cbs. unat (length_cb cb))"
    if i: "i < ?n" and r: "in_step_range d addr (?cbs ! i)"
      and below: "unat (step_addr d (?cbs ! i)) + unat (length_cb (?cbs ! i)) < 2 ^ 32" for i
  proof -
    note t = in_step_range_size_pos_test [OF below r]
    from built_test_passes [OF built i t(1)] t(2) show ?thesis by simp
  qed
  have none: "bcm2708_dma_desc_size_pos d addr = Some 0"
    if n: "\<forall>i < ?n. \<not> in_step_range d addr (?cbs ! i)"
    using built
  proof (rule built_test_fails)
    fix i assume "i < ?n"
    with n have "\<not> in_step_range d addr (?cbs ! i)" by simp
    then show "\<not> size_pos_test d addr (?cbs ! i)"
      using size_pos_test_in_step_range by blast
  qed
  have st: "bcm2708_dma_tx_status readl ret True c' ck
            = map_option
                (\<lambda>residue. (ret, Some residue,
                   [Readl (if direction' = DMA_DEV_TO_MEM then BCM2708_DMA_DEST_AD
                           else BCM2708_DMA_SOURCE_AD)]))
                (bcm2708_dma_desc_size_pos d
                   (readl (if direction' = DMA_DEV_TO_MEM then BCM2708_DMA_DEST_AD
                           else BCM2708_DMA_SOURCE_AD)))"
    if "desc c' = Some (d\<lparr>cookie := ck\<rparr>)" "vchan_find_desc (vc c') ck = None"
      "ret \<noteq> DMA_COMPLETE"
  proof -
    from f di have "dir (d\<lparr>cookie := ck\<rparr>) = DMA_MEM_TO_DEV
                    \<or> dir (d\<lparr>cookie := ck\<rparr>) = DMA_DEV_TO_MEM" by auto
    from tx_status_active [OF that(1) _ that(2,3) this, of readl] f di show ?thesis
      by (auto simp: desc_size_pos_cookie [OF len])
  qed
  from found none di st show ?thesis by (simp add: step_addr_def)
qed

theorem desc_size_pos_residue_witness:
  "bcm2708_dma_desc_size_pos sample_desc 0x1500 = Some 2816
   \<and> bcm2708_dma_desc_size_pos sample_desc 0x3000 = Some 0
   \<and> bcm2708_dma_tx_status (\<lambda>r. 0x1500) DMA_IN_PROGRESS True running_chan 1
       = Some (DMA_IN_PROGRESS, Some 2816, [Readl BCM2708_DMA_DEST_AD])"
proof -
  have built:
    "bcm2708_dma_prep_dma_cyclic sample_mach_dma sample_allocator sample_chan
       0x1000 4096 1024 DMA_DEV_TO_MEM
     = (Inr sample_desc, [Kzalloc True, DmaZallocCoherent 128 (Some 0x5000)])"
    by code_simp
  note t = desc_size_pos_residue [OF built]
  have n: "unat (frames sample_desc) = 4" by (simp add: sample_desc_def)
  have i: "1 < unat (frames sample_desc)" by (simp add: n)
  have inr: "in_step_range sample_desc 0x1500 (control_block_base sample_desc ! 1)
             \<and> unat (step_addr sample_desc (control_block_base sample_desc ! 1))
                 + unat (length_cb (control_block_base sample_desc ! 1)) < 2 ^ 32"
    by (simp add: in_step_range_def step_addr_def sample_desc_def)
  have v: "step_remainder sample_desc 0x1500 (control_block_base sample_desc ! 1)
           + sum_list (map length_cb (drop (Suc 1) (control_block_base sample_desc))) = 2816"
    by code_simp
  have a: "bcm2708_dma_desc_size_pos sample_desc 0x1500 = Some 2816"
    using t [of "0x1500"] i inr v by metis
  have out: "\<forall>i < unat (frames sample_desc).
               \<not> in_step_range sample_desc 0x3000 (control_block_base sample_desc ! i)"
  proof (intro allI impI)
    fix i assume "i < unat (frames sample_desc)"
    with n have "i = 0 \<or> i = 1 \<or> i = 2 \<or> i = 3" by linarith
    then show "\<not> in_step_range sample_desc 0x3000 (control_block_base sample_desc ! i)"
      by (elim disjE) (simp_all add: in_step_range_def step_addr_def sample_desc_def)
  qed
  have b: "bcm2708_dma_desc_size_pos sample_desc 0x3000 = Some 0"
    using t [of "0x3000"] out by blast
  have r: "desc running_chan = Some (sample_desc\<lparr>cookie := 1\<rparr>)
           \<and> vchan_find_desc (vc running_chan) 1 = None \<and> DMA_IN_PROGRESS \<noteq> DMA_COMPLETE"
    by code_simp
  have "bcm2708_dma_tx_status (\<lambda>r. 0x1500) DMA_IN_PROGRESS True running_chan 1
        = map_option (\<lambda>residue. (DMA_IN_PROGRESS, Some residue, [Readl BCM2708_DMA_DEST_AD]))
            (bcm2708_dma_desc_size_pos sample_desc 0x1500)"
    using t [where c' = running_chan and ck = 1 and ret = DMA_IN_PROGRESS
               and readl = "\<lambda>r. 0x1500"] r by simp
  with a b show ?thesis by simp
qed

text \<open>
  The claim as it was stated fails for a step that ends at the top of the address space.
  In the descriptor for a buffer of 512 bytes at \<open>0xFFFFFE00\<close> in periods of 256 bytes the
  position \<open>0xFFFFFF80\<close> falls within the range of the second step, 128 bytes before its
  end, and no step follows; but \<open>dma + this_size\<close> wraps around to 0 for that step, the
  test of line 199 fails, and the residue is 0, not 128.
\<close>

theorem desc_size_pos_residue_counterexample:
  "bcm2708_dma_prep_dma_cyclic sample_mach_dma sample_allocator sample_chan
       0xFFFFFE00 0x200 0x100 DMA_DEV_TO_MEM
     = (Inr top_desc, [Kzalloc True, DmaZallocCoherent 64 (Some 0x5000)])
   \<and> unat (frames top_desc) = 2
   \<and> in_step_range top_desc 0xFFFFFF80 (control_block_base top_desc ! 1)
   \<and> unat (step_addr top_desc (control_block_base top_desc ! 1))
       + unat (length_cb (control_block_base top_desc ! 1)) - unat (0xFFFFFF80 :: u32)
       + (\<Sum>cb \<leftarrow> drop (Suc 1) (control_block_base top_desc). unat (length_cb cb)) = 128
   \<and> bcm2708_dma_desc_size_pos top_desc 0xFFFFFF80 = Some 0"
proof -
  have "bcm2708_dma_prep_dma_cyclic sample_mach_dma sample_allocator sample_chan
       0xFFFFFE00 0x200 0x100 DMA_DEV_TO_MEM
     = (Inr top_desc, [Kzalloc True, DmaZallocCoherent 64 (Some 0x5000)])
   \<and> bcm2708_dma_desc_size_pos top_desc 0xFFFFFF80 = Some 0"
    by code_simp
  moreover have "unat (frames top_desc) = 2
   \<and> in_step_range top_desc 0xFFFFFF80 (control_block_base top_desc ! 1)
   \<and> unat (step_addr top_desc (control_block_base top_desc ! 1))
       + unat (length_cb (control_block_base top_desc ! 1)) - unat (0xFFFFFF80 :: u32)
       + (\<Sum>cb \<leftarrow> drop (Suc 1) (control_block_base top_desc). unat (length_cb cb)) = 128"
    by (simp add: in_step_range_def step_addr_def top_desc_def)
  ultimately show ?thesis by blast
qed

end
